theory Spec2Isabelle
  imports Main
begin

section \<open>The FPU instruction sequence of examples/riscv/basic\_fpu\_force.py\<close>

text \<open>
  The file defines one class, \<open>MainSequence\<close>, with one method, \<open>generate\<close>. The method
  reads the option \<open>instruction_count\<close> and the global state \<open>AppRegisterWidth\<close>, chooses
  one of two instruction groups and then, \<open>instruction_count\<close> times, picks an instruction
  from the group and asks the back end to generate it.

  The four methods \<open>generate\<close> calls on \<open>self\<close> (\<open>getOption\<close>, \<open>getGlobalState\<close>,
  \<open>pickWeighted\<close>, \<open>genInstruction\<close>) and the two instruction groups it names are inherited
  or imported from modules that are not part of the file. They are parameters of the
  model: an environment \<open>self\<close> holds them as functions on the state of the generator
  (its random source, the test program under construction, ...), which stays abstract.
\<close>

subsection \<open>Python values\<close>

text \<open>
  The values an option or a global state can hold. A Python \<open>bool\<close> is an \<open>int\<close>
  (\<open>True == 1\<close>, \<open>range(True)\<close> is \<open>range(1)\<close>); a string and \<open>None\<close> are not.
\<close>

datatype pyval = VInt int | VBool bool | VStr string | VNone

datatype exn = TypeError | Raised string

text \<open>The integer an object stands for where Python wants one (\<open>__index__\<close>).\<close>

fun py_index :: "pyval \<Rightarrow> int option" where
  "py_index (VInt n) = Some n"
| "py_index (VBool b) = Some (if b then 1 else 0)"
| "py_index (VStr s) = None"
| "py_index VNone = None"

text \<open>Python's \<open>==\<close> on these values; it never raises.\<close>

fun py_eq :: "pyval \<Rightarrow> pyval \<Rightarrow> bool" where
  "py_eq (VStr a) (VStr b) = (a = b)"
| "py_eq VNone VNone = True"
| "py_eq a b = (case (py_index a, py_index b) of (Some m, Some n) \<Rightarrow> m = n | _ \<Rightarrow> False)"

text \<open>
  \<open>range(n)\<close>: the integers from 0 up to \<open>n - 1\<close>, none when \<open>n \<le> 0\<close>; a \<open>TypeError\<close>
  when \<open>n\<close> is not an integer.
\<close>

definition py_range :: "pyval \<Rightarrow> exn + int list" where
  "py_range v = (case py_index v of None \<Rightarrow> Inl TypeError | Some n \<Rightarrow> Inr [0..n - 1])"

subsection \<open>The environment of \<open>generate\<close>\<close>

type_synonym ident = string
type_synonym recid = int

text \<open>An instruction group is a Python dict from instruction names to weights.\<close>

type_synonym group = "(ident \<times> int) list"

text \<open>
  \<open>getOption(name)\<close> returns a pair of the value and a flag that tells whether the option
  is set: an option that is not set is reported through the flag, not by an exception.
  \<open>getGlobalState(name)\<close> returns a value. \<open>pickWeighted(group)\<close> returns an
  instruction name and \<open>genInstruction(name)\<close> a record id; each of these two may raise
  instead (a selection error, a generation error). Every call may change the state
  \<open>'w\<close> of the generator.
\<close>

record 'w env =
  getOption :: "string \<Rightarrow> 'w \<Rightarrow> (pyval \<times> bool) \<times> 'w"
  getGlobalState :: "string \<Rightarrow> 'w \<Rightarrow> pyval \<times> 'w"
  pickWeighted :: "group \<Rightarrow> 'w \<Rightarrow> (exn + ident) \<times> 'w"
  genInstruction :: "ident \<Rightarrow> 'w \<Rightarrow> (exn + recid) \<times> 'w"
  RV32F_instructions :: group
  RV64F_instructions :: group

text \<open>
  One event per call that \<open>generate\<close> makes: the arguments and what the call returned
  or raised. The trace of a run lists its events in the order in which the calls returned.
\<close>

datatype event =
    GetOption string "pyval \<times> bool"
  | GetGlobalState string pyval
  | PickWeighted group "exn + ident"
  | GenInstruction ident "exn + recid"

record 'w st =
  world :: 'w
  trace :: "event list"

definition call_getOption :: "'w env \<Rightarrow> string \<Rightarrow> 'w st \<Rightarrow> (pyval \<times> bool) \<times> 'w st" where
  "call_getOption self name s =
     (let (r, w) = getOption self name (world s)
      in (r, \<lparr>world = w, trace = trace s @ [GetOption name r]\<rparr>))"

definition call_getGlobalState :: "'w env \<Rightarrow> string \<Rightarrow> 'w st \<Rightarrow> pyval \<times> 'w st" where
  "call_getGlobalState self name s =
     (let (r, w) = getGlobalState self name (world s)
      in (r, \<lparr>world = w, trace = trace s @ [GetGlobalState name r]\<rparr>))"

definition call_pickWeighted :: "'w env \<Rightarrow> group \<Rightarrow> 'w st \<Rightarrow> (exn + ident) \<times> 'w st" where
  "call_pickWeighted self g s =
     (let (r, w) = pickWeighted self g (world s)
      in (r, \<lparr>world = w, trace = trace s @ [PickWeighted g r]\<rparr>))"

definition call_genInstruction :: "'w env \<Rightarrow> ident \<Rightarrow> 'w st \<Rightarrow> (exn + recid) \<times> 'w st" where
  "call_genInstruction self x s =
     (let (r, w) = genInstruction self x (world s)
      in (r, \<lparr>world = w, trace = trace s @ [GenInstruction x r]\<rparr>))"

subsection \<open>\<open>MainSequence.generate\<close>\<close>

text \<open>
  The body of the \<open>for\<close> loop, once for every element of the range; the loop variable is
  not used. An exception of \<open>pickWeighted\<close> or \<open>genInstruction\<close> ends the loop and the
  method.
\<close>

fun generate_loop :: "'w env \<Rightarrow> group \<Rightarrow> int list \<Rightarrow> 'w st \<Rightarrow> (exn + unit) \<times> 'w st" where
  "generate_loop self instruction_group [] s = (Inr (), s)"
| "generate_loop self instruction_group (i # r) s =
     (case call_pickWeighted self instruction_group s of
        (Inl e, s1) \<Rightarrow> (Inl e, s1)
      | (Inr the_instruction, s1) \<Rightarrow>
          (case call_genInstruction self the_instruction s1 of
             (Inl e, s2) \<Rightarrow> (Inl e, s2)
           | (Inr record_id, s2) \<Rightarrow> generate_loop self instruction_group r s2))"

definition generate :: "'w env \<Rightarrow> 'w st \<Rightarrow> (exn + unit) \<times> 'w st" where
  "generate self s =
     (let ((count_opt, count_opt_valid), s1) = call_getOption self ''instruction_count'' s;
          instruction_count = (if count_opt_valid then count_opt else VInt 100);
          (width, s2) = call_getGlobalState self ''AppRegisterWidth'' s1;
          instruction_group =
            (if py_eq width (VInt 32) then RV32F_instructions self else RV64F_instructions self)
      in case py_range instruction_count of
           Inl e \<Rightarrow> (Inl e, s2)
         | Inr r \<Rightarrow> generate_loop self instruction_group r s2)"

text \<open>A run starts in some state of the generator, with no call made yet.\<close>

definition run :: "'w env \<Rightarrow> 'w \<Rightarrow> (exn + unit) \<times> 'w st" where
  "run self w = generate self \<lparr>world = w, trace = []\<rparr>"

definition outcome :: "'w env \<Rightarrow> 'w \<Rightarrow> exn + unit" where
  "outcome self w = fst (run self w)"

definition calls :: "'w env \<Rightarrow> 'w \<Rightarrow> event list" where
  "calls self w = trace (snd (run self w))"

definition final_world :: "'w env \<Rightarrow> 'w \<Rightarrow> 'w" where
  "final_world self w = world (snd (run self w))"

subsection \<open>Reading a trace\<close>

text \<open>The calls of each kind, in order: what was passed and what came back.\<close>

fun option_calls :: "event list \<Rightarrow> (string \<times> (pyval \<times> bool)) list" where
  "option_calls [] = []"
| "option_calls (GetOption n r # evs) = (n, r) # option_calls evs"
| "option_calls (ev # evs) = option_calls evs"

fun state_calls :: "event list \<Rightarrow> (string \<times> pyval) list" where
  "state_calls [] = []"
| "state_calls (GetGlobalState n r # evs) = (n, r) # state_calls evs"
| "state_calls (ev # evs) = state_calls evs"

fun pick_calls :: "event list \<Rightarrow> (group \<times> (exn + ident)) list" where
  "pick_calls [] = []"
| "pick_calls (PickWeighted g r # evs) = (g, r) # pick_calls evs"
| "pick_calls (ev # evs) = pick_calls evs"

fun gen_calls :: "event list \<Rightarrow> (ident \<times> (exn + recid)) list" where
  "gen_calls [] = []"
| "gen_calls (GenInstruction x r # evs) = (x, r) # gen_calls evs"
| "gen_calls (ev # evs) = gen_calls evs"

text \<open>The instruction names that \<open>pickWeighted\<close> returned.\<close>

fun picked :: "(group \<times> (exn + ident)) list \<Rightarrow> ident list" where
  "picked [] = []"
| "picked ((g, Inr x) # ps) = x # picked ps"
| "picked ((g, Inl e) # ps) = picked ps"

subsection \<open>The shape of a run\<close>

text \<open>
  The events of one iteration in which both calls returned, and the events of the
  iteration that ended a run early: either \<open>pickWeighted\<close> raised, or it returned and
  \<open>genInstruction\<close> raised.
\<close>

fun iteration :: "group \<Rightarrow> ident \<times> recid \<Rightarrow> event list" where
  "iteration g (x, rid) = [PickWeighted g (Inr x), GenInstruction x (Inr rid)]"

datatype ending = Completed | PickRaised exn | GenRaised ident exn

fun ending_events :: "group \<Rightarrow> ending \<Rightarrow> event list" where
  "ending_events g Completed = []"
| "ending_events g (PickRaised e) = [PickWeighted g (Inl e)]"
| "ending_events g (GenRaised x e) = [PickWeighted g (Inr x), GenInstruction x (Inl e)]"

fun ending_outcome :: "ending \<Rightarrow> exn + unit" where
  "ending_outcome Completed = Inr ()"
| "ending_outcome (PickRaised e) = Inl e"
| "ending_outcome (GenRaised x e) = Inl e"

text \<open>
  The state of the generator after the calls of a trace have been made on it, one after
  the other.
\<close>

fun replay :: "'w env \<Rightarrow> event list \<Rightarrow> 'w \<Rightarrow> 'w" where
  "replay self [] w = w"
| "replay self (GetOption n r # evs) w = replay self evs (snd (getOption self n w))"
| "replay self (GetGlobalState n r # evs) w = replay self evs (snd (getGlobalState self n w))"
| "replay self (PickWeighted g r # evs) w = replay self evs (snd (pickWeighted self g w))"
| "replay self (GenInstruction x r # evs) w = replay self evs (snd (genInstruction self x w))"

text \<open>An event of a call that raised.\<close>

fun raises :: "event \<Rightarrow> bool" where
  "raises (PickWeighted g (Inl e)) = True"
| "raises (GenInstruction x (Inl e)) = True"
| "raises ev = False"

text \<open>
  A trace is answered by an environment from a state when every event in it holds the
  answer that the environment gives to that call in the state that the calls before it
  have left.
\<close>

fun answered :: "'w env \<Rightarrow> event list \<Rightarrow> 'w \<Rightarrow> bool" where
  "answered self [] w = True"
| "answered self (GetOption n r # evs) w =
     (r = fst (getOption self n w) \<and> answered self evs (snd (getOption self n w)))"
| "answered self (GetGlobalState n r # evs) w =
     (r = fst (getGlobalState self n w) \<and> answered self evs (snd (getGlobalState self n w)))"
| "answered self (PickWeighted g r # evs) w =
     (r = fst (pickWeighted self g w) \<and> answered self evs (snd (pickWeighted self g w)))"
| "answered self (GenInstruction x r # evs) w =
     (r = fst (genInstruction self x w) \<and> answered self evs (snd (genInstruction self x w)))"

text \<open>The count and the group that a run settles on, as lines 40 to 43 and 64 compute them.\<close>

definition resolved_count :: "pyval \<times> bool \<Rightarrow> pyval" where
  "resolved_count r = (if snd r then fst r else VInt 100)"

definition active_group :: "'w env \<Rightarrow> pyval \<Rightarrow> group" where
  "active_group self width =
     (if py_eq width (VInt 32) then RV32F_instructions self else RV64F_instructions self)"

text \<open>
  What a call of \<open>genInstruction\<close> did apart from the record id that it returned: it
  returned, or it raised a certain exception.
\<close>

fun without_record_id :: "exn + recid \<Rightarrow> exn + unit" where
  "without_record_id (Inl e) = Inl e"
| "without_record_id (Inr rid) = Inr ()"

text \<open>The two constructors of events that belong to the loop.\<close>

fun pick_event :: "group \<times> (exn + ident) \<Rightarrow> event" where
  "pick_event (g, r) = PickWeighted g r"

fun gen_event :: "ident \<times> (exn + recid) \<Rightarrow> event" where
  "gen_event (x, r) = GenInstruction x r"

subsection \<open>A concrete environment\<close>

text \<open>
  An environment on which runs can be evaluated. Its state is a counter that stands for
  the random source and the list of the instructions generated so far. A scenario fixes
  the configuration, the two groups, the instructions that the back end cannot generate
  and the first record id that it hands out.
\<close>

record test_world =
  seed :: nat
  program :: "ident list"

record scenario =
  count_option :: "pyval \<times> bool"
  register_width :: pyval
  rv32f :: group
  rv64f :: group
  unsupported :: "ident list"
  first_id :: int

fun pick_at :: "group \<Rightarrow> int \<Rightarrow> ident option" where
  "pick_at [] k = None"
| "pick_at ((x, wt) # g) k = (if k < wt then Some x else pick_at g (k - wt))"

text \<open>
  Modelled from the spec: \<open>pickWeighted\<close> is not in the file; section 4.2 asks that a
  group that is empty or has total weight zero fails, and that otherwise one name of the
  group is returned, with frequency in proportion to its weight. Here the draw is the
  counter modulo the total weight.
\<close>

definition weighted_pick :: "group \<Rightarrow> nat \<Rightarrow> exn + ident" where
  "weighted_pick g k =
     (if sum_list (map snd g) \<le> 0 then Inl (Raised ''SelectionError'')
      else case pick_at g (int k mod sum_list (map snd g)) of
             None \<Rightarrow> Inl (Raised ''SelectionError'')
           | Some x \<Rightarrow> Inr x)"

definition test_env :: "scenario \<Rightarrow> test_world env" where
  "test_env sc =
     \<lparr>getOption = (\<lambda>name w.
        (if name = ''instruction_count'' then count_option sc else (VNone, False), w)),
      getGlobalState = (\<lambda>name w.
        (if name = ''AppRegisterWidth'' then register_width sc else VNone, w)),
      pickWeighted = (\<lambda>g w. (weighted_pick g (seed w), w\<lparr>seed := Suc (seed w)\<rparr>)),
      genInstruction = (\<lambda>x w.
        if x \<in> set (unsupported sc) then (Inl (Raised ''GenerationError''), w)
        else (Inr (first_id sc + int (length (program w))), w\<lparr>program := program w @ [x]\<rparr>)),
      RV32F_instructions = rv32f sc,
      RV64F_instructions = rv64f sc\<rparr>"

definition start :: test_world where
  "start = \<lparr>seed = 0, program = []\<rparr>"

definition basic :: scenario where
  "basic =
     \<lparr>count_option = (VInt 3, True),
      register_width = VInt 64,
      rv32f = [(''FADD.S##RISCV'', 10), (''FCVT.S.W##RISCV'', 10)],
      rv64f = [(''FCVT.L.S##RISCV'', 10), (''FCVT.S.L##RISCV'', 10)],
      unsupported = [],
      first_id = 1\<rparr>"

text \<open>
  Two more scenarios: one where the group for 64 bits is empty, and one where the picks
  alternate between two instructions, the second of which the back end cannot generate.
\<close>

definition empty_group :: scenario where
  "empty_group = basic\<lparr>rv64f := []\<rparr>"

definition unsupported_second :: scenario where
  "unsupported_second =
     basic\<lparr>rv64f := [(''FCVT.L.S##RISCV'', 1), (''FCVT.S.L##RISCV'', 1)],
           unsupported := [''FCVT.S.L##RISCV'']\<rparr>"

section \<open>Properties\<close>

subsection \<open>Traces\<close>

lemma option_calls_append: "option_calls (xs @ ys) = option_calls xs @ option_calls ys"
  by (induction xs rule: option_calls.induct) simp_all

lemma state_calls_append: "state_calls (xs @ ys) = state_calls xs @ state_calls ys"
  by (induction xs rule: state_calls.induct) simp_all

lemma pick_calls_append: "pick_calls (xs @ ys) = pick_calls xs @ pick_calls ys"
  by (induction xs rule: pick_calls.induct) simp_all

lemma gen_calls_append: "gen_calls (xs @ ys) = gen_calls xs @ gen_calls ys"
  by (induction xs rule: gen_calls.induct) simp_all

lemma picked_append: "picked (ps @ qs) = picked ps @ picked qs"
  by (induction ps rule: picked.induct) simp_all

lemma pick_calls_iterations:
  "pick_calls (concat (map (iteration g) its)) = map (\<lambda>(x, rid). (g, Inr x)) its"
  by (induction its) auto

lemma gen_calls_iterations:
  "gen_calls (concat (map (iteration g) its)) = map (\<lambda>(x, rid). (x, Inr rid)) its"
  by (induction its) auto

lemma option_calls_iterations: "option_calls (concat (map (iteration g) its)) = []"
  by (induction its) auto

lemma state_calls_iterations: "state_calls (concat (map (iteration g) its)) = []"
  by (induction its) auto

lemma picked_returned: "picked (map (\<lambda>(x, rid). (g, Inr x)) its) = map fst its"
  by (induction its) auto


lemma replay_append: "replay self (xs @ ys) w = replay self ys (replay self xs w)"
  by (induction self xs w rule: replay.induct) simp_all

lemma generate_loop_shape:
  "\<exists>its en. trace (snd (generate_loop self g r s)) =
              trace s @ concat (map (iteration g) its) @ ending_events g en
     \<and> fst (generate_loop self g r s) = ending_outcome en
     \<and> (if en = Completed then length its = length r else length its < length r)
     \<and> world (snd (generate_loop self g r s)) =
         replay self (concat (map (iteration g) its) @ ending_events g en) (world s)"
proof (induction r arbitrary: s)
  case Nil
  have "trace (snd (generate_loop self g [] s)) =
          trace s @ concat (map (iteration g) []) @ ending_events g Completed
      \<and> fst (generate_loop self g [] s) = ending_outcome Completed
      \<and> (if Completed = Completed then length ([]::(ident \<times> recid) list) = length ([]::int list)
          else length ([]::(ident \<times> recid) list) < length ([]::int list))
      \<and> world (snd (generate_loop self g [] s)) =
         replay self (concat (map (iteration g) []) @ ending_events g Completed) (world s)"
    by simp
  then show ?case by blast
next
  case (Cons i r)
  obtain p w1 where p: "pickWeighted self g (world s) = (p, w1)"
    by (cases "pickWeighted self g (world s)")
  show ?case
  proof (cases p)
    case (Inl e)
    have "trace (snd (generate_loop self g (i # r) s)) =
          trace s @ concat (map (iteration g) []) @ ending_events g (PickRaised e)
      \<and> fst (generate_loop self g (i # r) s) = ending_outcome (PickRaised e)
      \<and> (if PickRaised e = Completed then length ([]::(ident \<times> recid) list) = length (i # r)
          else length ([]::(ident \<times> recid) list) < length (i # r))
      \<and> world (snd (generate_loop self g (i # r) s)) =
         replay self (concat (map (iteration g) []) @ ending_events g (PickRaised e)) (world s)"
      using p Inl by (simp add: call_pickWeighted_def)
    then show ?thesis by blast
  next
    case (Inr x)
    note px = this
    obtain q w2 where q: "genInstruction self x w1 = (q, w2)"
      by (cases "genInstruction self x w1")
    show ?thesis
    proof (cases q)
      case (Inl e)
      have "trace (snd (generate_loop self g (i # r) s)) =
          trace s @ concat (map (iteration g) []) @ ending_events g (GenRaised x e)
        \<and> fst (generate_loop self g (i # r) s) = ending_outcome (GenRaised x e)
        \<and> (if GenRaised x e = Completed then length ([]::(ident \<times> recid) list) = length (i # r)
            else length ([]::(ident \<times> recid) list) < length (i # r))
        \<and> world (snd (generate_loop self g (i # r) s)) =
           replay self (concat (map (iteration g) []) @ ending_events g (GenRaised x e)) (world s)"
        using p q Inl px by (simp add: call_pickWeighted_def call_genInstruction_def)
      then show ?thesis by blast
    next
      case (Inr rid)
      let ?s2 = "\<lparr>world = w2,
                  trace = trace s @ [PickWeighted g (Inr x), GenInstruction x (Inr rid)]\<rparr>"
      have step: "generate_loop self g (i # r) s = generate_loop self g r ?s2"
        using p q Inr px by (simp add: call_pickWeighted_def call_genInstruction_def)
      from Cons.IH [of ?s2] obtain its en where
        ih: "trace (snd (generate_loop self g r ?s2)) =
               trace ?s2 @ concat (map (iteration g) its) @ ending_events g en"
            "fst (generate_loop self g r ?s2) = ending_outcome en"
            "if en = Completed then length its = length r else length its < length r"
            "world (snd (generate_loop self g r ?s2)) =
               replay self (concat (map (iteration g) its) @ ending_events g en) (world ?s2)"
        by blast
      have "trace (snd (generate_loop self g (i # r) s)) =
          trace s @ concat (map (iteration g) ((x, rid) # its)) @ ending_events g en
        \<and> fst (generate_loop self g (i # r) s) = ending_outcome en
        \<and> (if en = Completed then length ((x, rid) # its) = length (i # r)
            else length ((x, rid) # its) < length (i # r))
        \<and> world (snd (generate_loop self g (i # r) s)) =
           replay self (concat (map (iteration g) ((x, rid) # its)) @ ending_events g en) (world s)"
        using ih step p q by (simp split: if_splits)
      then show ?thesis by blast
    qed
  qed
qed

lemma py_range_length: "py_index v = Some n \<Longrightarrow> \<exists>r. py_range v = Inr r \<and> length r = nat n"
  by (simp add: py_range_def)

lemma py_range_TypeError: "py_index v = None \<Longrightarrow> py_range v = Inl TypeError"
  by (simp add: py_range_def)

lemma run_unfold:
  assumes "getOption self ''instruction_count'' w = (ro, w1)"
      and "getGlobalState self ''AppRegisterWidth'' w1 = (v, w2)"
  shows "run self w =
     (case py_range (resolved_count ro) of
        Inl e \<Rightarrow>
          (Inl e, \<lparr>world = w2, trace = [GetOption ''instruction_count'' ro,
                                         GetGlobalState ''AppRegisterWidth'' v]\<rparr>)
      | Inr r \<Rightarrow>
          generate_loop self (active_group self v) r
            \<lparr>world = w2, trace = [GetOption ''instruction_count'' ro,
                                   GetGlobalState ''AppRegisterWidth'' v]\<rparr>)"
proof (cases ro)
  case (Pair count_opt count_opt_valid)
  then show ?thesis
    using assms
    by (simp add: run_def generate_def call_getOption_def call_getGlobalState_def
        resolved_count_def active_group_def del: py_eq.simps split: sum.split)
qed

lemma run_shape:
  "\<exists>ro v its en.
      ro = fst (getOption self ''instruction_count'' w)
    \<and> v = fst (getGlobalState self ''AppRegisterWidth''
               (snd (getOption self ''instruction_count'' w)))
    \<and> calls self w =
        GetOption ''instruction_count'' ro # GetGlobalState ''AppRegisterWidth'' v #
        concat (map (iteration (active_group self v)) its) @
        ending_events (active_group self v) en
    \<and> (case py_index (resolved_count ro) of
          None \<Rightarrow> its = [] \<and> en = Completed \<and> outcome self w = Inl TypeError
        | Some n \<Rightarrow> outcome self w = ending_outcome en
            \<and> (if en = Completed then length its = nat n else length its < nat n))
    \<and> final_world self w = replay self (calls self w) w"
proof -
  obtain ro w1 where o: "getOption self ''instruction_count'' w = (ro, w1)"
    by (cases "getOption self ''instruction_count'' w")
  obtain v w2 where g: "getGlobalState self ''AppRegisterWidth'' w1 = (v, w2)"
    by (cases "getGlobalState self ''AppRegisterWidth'' w1")
  let ?hdr = "[GetOption ''instruction_count'' ro, GetGlobalState ''AppRegisterWidth'' v]"
  let ?s2 = "\<lparr>world = w2, trace = ?hdr\<rparr>"
  let ?g = "active_group self v"
  note u = run_unfold [OF o g]
  show ?thesis
  proof (cases "py_index (resolved_count ro)")
    case None
    then have r: "run self w = (Inl TypeError, ?s2)"
      using u by (simp add: py_range_TypeError)
    have "ro = fst (getOption self ''instruction_count'' w)
      \<and> v = fst (getGlobalState self ''AppRegisterWidth''
               (snd (getOption self ''instruction_count'' w)))
      \<and> calls self w =
        GetOption ''instruction_count'' ro # GetGlobalState ''AppRegisterWidth'' v #
        concat (map (iteration ?g) []) @ ending_events ?g Completed
      \<and> (case py_index (resolved_count ro) of
          None \<Rightarrow> ([]::(ident \<times> recid) list) = [] \<and> Completed = Completed
                    \<and> outcome self w = Inl TypeError
        | Some n \<Rightarrow> outcome self w = ending_outcome Completed
            \<and> (if Completed = Completed then length ([]::(ident \<times> recid) list) = nat n
                else length ([]::(ident \<times> recid) list) < nat n))
      \<and> final_world self w = replay self (calls self w) w"
      using None r o g by (simp add: calls_def outcome_def final_world_def)
    then show ?thesis by blast
  next
    case (Some n)
    then obtain r where r: "py_range (resolved_count ro) = Inr r" "length r = nat n"
      using py_range_length by blast
    then have run: "run self w = generate_loop self ?g r ?s2"
      using u by simp
    from generate_loop_shape [of self ?g r ?s2] obtain its en where
      sh: "trace (snd (generate_loop self ?g r ?s2)) =
             trace ?s2 @ concat (map (iteration ?g) its) @ ending_events ?g en"
          "fst (generate_loop self ?g r ?s2) = ending_outcome en"
          "if en = Completed then length its = length r else length its < length r"
          "world (snd (generate_loop self ?g r ?s2)) =
             replay self (concat (map (iteration ?g) its) @ ending_events ?g en) (world ?s2)"
      by blast
    have "ro = fst (getOption self ''instruction_count'' w)
      \<and> v = fst (getGlobalState self ''AppRegisterWidth''
               (snd (getOption self ''instruction_count'' w)))
      \<and> calls self w =
        GetOption ''instruction_count'' ro # GetGlobalState ''AppRegisterWidth'' v #
        concat (map (iteration ?g) its) @ ending_events ?g en
      \<and> (case py_index (resolved_count ro) of
          None \<Rightarrow> its = [] \<and> en = Completed \<and> outcome self w = Inl TypeError
        | Some n \<Rightarrow> outcome self w = ending_outcome en
            \<and> (if en = Completed then length its = nat n else length its < nat n))
      \<and> final_world self w = replay self (calls self w) w"
      using Some run sh r(2) o g
      by (simp add: calls_def outcome_def final_world_def split: if_splits)
    then show ?thesis by blast
  qed
qed

lemma ending_events_no_config [simp]:
  "option_calls (ending_events g en) = []" "state_calls (ending_events g en) = []"
  by (cases en; simp)+

lemma ending_Completed: "ending_outcome en = Inr () \<longleftrightarrow> en = Completed"
  by (cases en) simp_all

lemma run_projections:
  obtains ro v its en where
    "ro = fst (getOption self ''instruction_count'' w)"
    "v = fst (getGlobalState self ''AppRegisterWidth''
           (snd (getOption self ''instruction_count'' w)))"
    "calls self w =
       GetOption ''instruction_count'' ro # GetGlobalState ''AppRegisterWidth'' v #
       concat (map (iteration (active_group self v)) its) @
       ending_events (active_group self v) en"
    "option_calls (calls self w) = [(''instruction_count'', ro)]"
    "state_calls (calls self w) = [(''AppRegisterWidth'', v)]"
    "pick_calls (calls self w) =
       map (\<lambda>(x, rid). (active_group self v, Inr x)) its @
       pick_calls (ending_events (active_group self v) en)"
    "gen_calls (calls self w) =
       map (\<lambda>(x, rid). (x, Inr rid)) its @ gen_calls (ending_events (active_group self v) en)"
    "case py_index (resolved_count ro) of
       None \<Rightarrow> its = [] \<and> en = Completed \<and> outcome self w = Inl TypeError
     | Some n \<Rightarrow> outcome self w = ending_outcome en
         \<and> (if en = Completed then length its = nat n else length its < nat n)"
    "final_world self w = replay self (calls self w) w"
proof -
  from run_shape [of self w] obtain ro v its en where
    sh: "ro = fst (getOption self ''instruction_count'' w)"
        "v = fst (getGlobalState self ''AppRegisterWidth''
               (snd (getOption self ''instruction_count'' w)))"
        "calls self w =
           GetOption ''instruction_count'' ro # GetGlobalState ''AppRegisterWidth'' v #
           concat (map (iteration (active_group self v)) its) @
           ending_events (active_group self v) en"
        "case py_index (resolved_count ro) of
           None \<Rightarrow> its = [] \<and> en = Completed \<and> outcome self w = Inl TypeError
         | Some n \<Rightarrow> outcome self w = ending_outcome en
             \<and> (if en = Completed then length its = nat n else length its < nat n)"
        "final_world self w = replay self (calls self w) w"
    by blast
  have "option_calls (calls self w) = [(''instruction_count'', ro)]"
    by (simp add: sh(3) option_calls_append option_calls_iterations)
  moreover have "state_calls (calls self w) = [(''AppRegisterWidth'', v)]"
    by (simp add: sh(3) state_calls_append state_calls_iterations)
  moreover have "pick_calls (calls self w) =
       map (\<lambda>(x, rid). (active_group self v, Inr x)) its @
       pick_calls (ending_events (active_group self v) en)"
    by (simp add: sh(3) pick_calls_append pick_calls_iterations)
  moreover have "gen_calls (calls self w) =
       map (\<lambda>(x, rid). (x, Inr rid)) its @ gen_calls (ending_events (active_group self v) en)"
    by (simp add: sh(3) gen_calls_append gen_calls_iterations)
  ultimately show thesis
    using that sh by blast
qed

lemma option_calls_run:
  "option_calls (calls self w) =
     [(''instruction_count'', fst (getOption self ''instruction_count'' w))]"
proof -
  obtain ro v its en where
    "ro = fst (getOption self ''instruction_count'' w)"
    "option_calls (calls self w) = [(''instruction_count'', ro)]"
    by (rule run_projections [of self w])
  then show ?thesis by simp
qed

lemma state_calls_run:
  "state_calls (calls self w) =
     [(''AppRegisterWidth'', fst (getGlobalState self ''AppRegisterWidth''
        (snd (getOption self ''instruction_count'' w))))]"
proof -
  obtain ro v its en where
    "v = fst (getGlobalState self ''AppRegisterWidth''
           (snd (getOption self ''instruction_count'' w)))"
    "state_calls (calls self w) = [(''AppRegisterWidth'', v)]"
    by (rule run_projections [of self w])
  then show ?thesis by simp
qed

lemma generate_loop_completes:
  assumes "\<And>w. \<exists>x. fst (pickWeighted self g w) = Inr x"
      and "\<And>x w. \<exists>rid. fst (genInstruction self x w) = Inr rid"
  shows "fst (generate_loop self g r s) = Inr ()"
proof (induction r arbitrary: s)
  case Nil
  show ?case by simp
next
  case (Cons i r)
  obtain p w1 where p: "pickWeighted self g (world s) = (p, w1)"
    by (cases "pickWeighted self g (world s)")
  with assms(1) [of "world s"] obtain x where x: "p = Inr x" by auto
  obtain q w2 where q: "genInstruction self x w1 = (q, w2)"
    by (cases "genInstruction self x w1")
  with assms(2) [of x w1] obtain rid where rid: "q = Inr rid" by auto
  show ?case
    using p x q rid Cons.IH
    by (simp add: call_pickWeighted_def call_genInstruction_def)
qed

lemma run_completes:
  assumes "py_index (resolved_count (fst (getOption self ''instruction_count'' w))) = Some n"
      and "\<And>w. \<exists>x. fst (pickWeighted self (RV32F_instructions self) w) = Inr x"
      and "\<And>w. \<exists>x. fst (pickWeighted self (RV64F_instructions self) w) = Inr x"
      and "\<And>x w. \<exists>rid. fst (genInstruction self x w) = Inr rid"
  shows "outcome self w = Inr ()"
proof -
  obtain ro w1 where o: "getOption self ''instruction_count'' w = (ro, w1)"
    by (cases "getOption self ''instruction_count'' w")
  obtain v w2 where g: "getGlobalState self ''AppRegisterWidth'' w1 = (v, w2)"
    by (cases "getGlobalState self ''AppRegisterWidth'' w1")
  from assms(1) o obtain r where r: "py_range (resolved_count ro) = Inr r"
    using py_range_length [of "resolved_count ro" n] by auto
  have "\<And>w. \<exists>x. fst (pickWeighted self (active_group self v) w) = Inr x"
    using assms(2,3) by (simp add: active_group_def del: py_eq.simps)
  then have "fst (generate_loop self (active_group self v) r s) = Inr ()" for s
    using assms(4) by (rule generate_loop_completes)
  then show ?thesis
    by (simp add: outcome_def run_unfold [OF o g] r)
qed

lemma pick_at_some:
  "0 \<le> k \<Longrightarrow> k < sum_list (map snd g) \<Longrightarrow> \<forall>p \<in> set g. 0 \<le> snd p \<Longrightarrow> \<exists>x. pick_at g k = Some x"
  by (induction g k rule: pick_at.induct) auto

lemma weighted_pick_returns:
  assumes "0 < sum_list (map snd g)" and "\<forall>p \<in> set g. 0 \<le> snd p"
  shows "\<exists>x. weighted_pick g k = Inr x"
proof -
  let ?t = "sum_list (map snd g)"
  have "0 \<le> int k mod ?t" "int k mod ?t < ?t"
    using assms(1) by simp_all
  then obtain x where "pick_at g (int k mod ?t) = Some x"
    using pick_at_some assms(2) by blast
  then show ?thesis
    using assms(1) by (simp add: weighted_pick_def)
qed

lemma test_env_completes:
  assumes "py_index (resolved_count (count_option sc)) = Some n"
      and "0 < sum_list (map snd (rv32f sc))" and "\<forall>p \<in> set (rv32f sc). 0 \<le> snd p"
      and "0 < sum_list (map snd (rv64f sc))" and "\<forall>p \<in> set (rv64f sc). 0 \<le> snd p"
      and "unsupported sc = []"
  shows "outcome (test_env sc) w = Inr ()"
proof (rule run_completes)
  show "py_index (resolved_count (fst (getOption (test_env sc) ''instruction_count'' w))) = Some n"
    using assms(1) by (simp add: test_env_def)
  show "\<exists>x. fst (pickWeighted (test_env sc) (RV32F_instructions (test_env sc)) w') = Inr x" for w'
    using weighted_pick_returns [OF assms(2,3)] by (simp add: test_env_def)
  show "\<exists>x. fst (pickWeighted (test_env sc) (RV64F_instructions (test_env sc)) w') = Inr x" for w'
    using weighted_pick_returns [OF assms(4,5)] by (simp add: test_env_def)
  show "\<exists>rid. fst (genInstruction (test_env sc) x w') = Inr rid" for x w'
    using assms(6) by (simp add: test_env_def)
qed

lemma splice_iterations:
  "splice (map pick_event (map (\<lambda>(x, rid). (g, Inr x)) its @ ps))
          (map gen_event (map (\<lambda>(x, rid). (x, Inr rid)) its @ gs)) =
   concat (map (iteration g) its) @ splice (map pick_event ps) (map gen_event gs)"
  by (induction its) auto

lemma returned_iterations:
  "map snd (map (\<lambda>(x, rid). (g, Inr x)) its) = map (\<lambda>(x, r). Inr x) (map (\<lambda>(x, rid). (x, Inr rid)) its)"
  by (induction its) auto

lemma groups_iterations:
  "map fst (map (\<lambda>(x, rid). (g, Inr x)) its) = replicate (length its) g"
  by (induction its) auto

lemma names_iterations:
  "map fst (map (\<lambda>(x, rid). (x, Inr rid)) its) = map fst its"
  by (induction its) auto

lemma active_group_cases:
  "active_group self v = RV32F_instructions self \<or> active_group self v = RV64F_instructions self"
  by (simp add: active_group_def del: py_eq.simps)

lemma generate_loop_unpickable:
  assumes "isl (fst (pickWeighted self g (world s)))"
  shows "gen_calls (trace (snd (generate_loop self g r s))) = gen_calls (trace s)
       \<and> length (pick_calls (trace (snd (generate_loop self g r s))))
           \<le> Suc (length (pick_calls (trace s)))"
proof (cases r)
  case Nil
  then show ?thesis by simp
next
  case (Cons i r')
  obtain p w1 where p: "pickWeighted self g (world s) = (p, w1)"
    by (cases "pickWeighted self g (world s)")
  with assms obtain e where "p = Inl e" by (cases p) simp_all
  with p Cons show ?thesis
    by (simp add: call_pickWeighted_def gen_calls_append pick_calls_append)
qed

lemma run_unpickable:
  assumes "\<And>w'. isl (fst (pickWeighted self (active_group self
             (fst (getGlobalState self ''AppRegisterWidth''
               (snd (getOption self ''instruction_count'' w))))) w'))"
  shows "gen_calls (calls self w) = [] \<and> length (pick_calls (calls self w)) \<le> 1"
proof -
  obtain ro w1 where o: "getOption self ''instruction_count'' w = (ro, w1)"
    by (cases "getOption self ''instruction_count'' w")
  obtain v w2 where g: "getGlobalState self ''AppRegisterWidth'' w1 = (v, w2)"
    by (cases "getGlobalState self ''AppRegisterWidth'' w1")
  let ?s2 = "\<lparr>world = w2, trace = [GetOption ''instruction_count'' ro,
                                      GetGlobalState ''AppRegisterWidth'' v]\<rparr>"
  have un: "isl (fst (pickWeighted self (active_group self v) (world ?s2)))"
    using assms [of w2] o g by simp
  show ?thesis
  proof (cases "py_range (resolved_count ro)")
    case (Inl e)
    then show ?thesis
      by (simp add: calls_def run_unfold [OF o g])
  next
    case (Inr r)
    with generate_loop_unpickable [OF un, of r] show ?thesis
      by (simp add: calls_def run_unfold [OF o g])
  qed
qed

lemma without_record_id_Inl:
  "without_record_id q = without_record_id (Inl e) \<Longrightarrow> q = Inl e"
  by (cases q) simp_all

lemma without_record_id_Inr:
  "without_record_id q = without_record_id (Inr rid) \<Longrightarrow> \<exists>rid'. q = Inr rid'"
  by (cases q) simp_all

lemma generate_loop_record_ids:
  assumes pick: "\<And>a b. R a b \<Longrightarrow>
        fst (pickWeighted e1 g a) = fst (pickWeighted e2 g b)
      \<and> R (snd (pickWeighted e1 g a)) (snd (pickWeighted e2 g b))"
    and gen: "\<And>x a b. R a b \<Longrightarrow>
        without_record_id (fst (genInstruction e1 x a)) =
        without_record_id (fst (genInstruction e2 x b))
      \<and> R (snd (genInstruction e1 x a)) (snd (genInstruction e2 x b))"
    and "R (world s1) (world s2)"
    and "option_calls (trace s1) = option_calls (trace s2)"
    and "state_calls (trace s1) = state_calls (trace s2)"
    and "pick_calls (trace s1) = pick_calls (trace s2)"
    and "map fst (gen_calls (trace s1)) = map fst (gen_calls (trace s2))"
  shows "fst (generate_loop e1 g r s1) = fst (generate_loop e2 g r s2)
       \<and> option_calls (trace (snd (generate_loop e1 g r s1))) =
         option_calls (trace (snd (generate_loop e2 g r s2)))
       \<and> state_calls (trace (snd (generate_loop e1 g r s1))) =
         state_calls (trace (snd (generate_loop e2 g r s2)))
       \<and> pick_calls (trace (snd (generate_loop e1 g r s1))) =
         pick_calls (trace (snd (generate_loop e2 g r s2)))
       \<and> map fst (gen_calls (trace (snd (generate_loop e1 g r s1)))) =
         map fst (gen_calls (trace (snd (generate_loop e2 g r s2))))"
  using assms(3-)
proof (induction r arbitrary: s1 s2)
  case Nil
  then show ?case by simp
next
  case (Cons i r)
  obtain p1 a1 where p1: "pickWeighted e1 g (world s1) = (p1, a1)"
    by (cases "pickWeighted e1 g (world s1)")
  obtain p2 a2 where p2: "pickWeighted e2 g (world s2) = (p2, a2)"
    by (cases "pickWeighted e2 g (world s2)")
  from pick [OF Cons.prems(1)] p1 p2 have p: "p2 = p1" and a: "R a1 a2"
    by simp_all
  show ?case
  proof (cases p1)
    case (Inl e)
    with p p1 p2 Cons.prems show ?thesis
      by (simp add: call_pickWeighted_def option_calls_append state_calls_append
          pick_calls_append gen_calls_append)
  next
    case (Inr x)
    note px = this
    obtain q1 b1 where q1: "genInstruction e1 x a1 = (q1, b1)"
      by (cases "genInstruction e1 x a1")
    obtain q2 b2 where q2: "genInstruction e2 x a2 = (q2, b2)"
      by (cases "genInstruction e2 x a2")
    from gen [OF a, of x] q1 q2
    have q: "without_record_id q2 = without_record_id q1" and b: "R b1 b2"
      by simp_all
    show ?thesis
    proof (cases q1)
      case (Inl e)
      with q have "q2 = Inl e" by (simp add: without_record_id_Inl)
      with Inl px p p1 p2 q1 q2 Cons.prems show ?thesis
        by (simp add: call_pickWeighted_def call_genInstruction_def option_calls_append
            state_calls_append pick_calls_append gen_calls_append)
    next
      case (Inr rid1)
      with q obtain rid2 where rid2: "q2 = Inr rid2"
        using without_record_id_Inr by blast
      let ?t1 = "\<lparr>world = b1, trace = (trace s1 @ [PickWeighted g (Inr x)]) @
                    [GenInstruction x (Inr rid1)]\<rparr>"
      let ?t2 = "\<lparr>world = b2, trace = (trace s2 @ [PickWeighted g (Inr x)]) @
                    [GenInstruction x (Inr rid2)]\<rparr>"
      have s1: "generate_loop e1 g (i # r) s1 = generate_loop e1 g r ?t1"
        using p1 q1 px Inr by (simp add: call_pickWeighted_def call_genInstruction_def)
      have s2: "generate_loop e2 g (i # r) s2 = generate_loop e2 g r ?t2"
        using p2 q2 p px rid2 by (simp add: call_pickWeighted_def call_genInstruction_def)
      have "fst (generate_loop e1 g r ?t1) = fst (generate_loop e2 g r ?t2)
       \<and> option_calls (trace (snd (generate_loop e1 g r ?t1))) =
         option_calls (trace (snd (generate_loop e2 g r ?t2)))
       \<and> state_calls (trace (snd (generate_loop e1 g r ?t1))) =
         state_calls (trace (snd (generate_loop e2 g r ?t2)))
       \<and> pick_calls (trace (snd (generate_loop e1 g r ?t1))) =
         pick_calls (trace (snd (generate_loop e2 g r ?t2)))
       \<and> map fst (gen_calls (trace (snd (generate_loop e1 g r ?t1)))) =
         map fst (gen_calls (trace (snd (generate_loop e2 g r ?t2))))"
        using b Cons.prems
        by (intro Cons.IH)
           (simp_all add: option_calls_append state_calls_append pick_calls_append
              gen_calls_append)
      then show ?thesis
        unfolding s1 s2 .
    qed
  qed
qed

lemma generate_loop_picks_answered:
  assumes "(g', r) \<in> set (pick_calls (trace (snd (generate_loop self g rs s))))"
  shows "(g', r) \<in> set (pick_calls (trace s)) \<or> (\<exists>w'. r = fst (pickWeighted self g' w'))"
  using assms
proof (induction rs arbitrary: s)
  case Nil
  then show ?case by simp
next
  case (Cons i rs)
  obtain p w1 where p: "pickWeighted self g (world s) = (p, w1)"
    by (cases "pickWeighted self g (world s)")
  then have "p = fst (pickWeighted self g (world s))" by simp
  then have ans: "\<exists>w'. p = fst (pickWeighted self g w')" by (rule exI)
  show ?case
  proof (cases p)
    case (Inl e)
    with Cons.prems p ans show ?thesis
      by (auto simp: call_pickWeighted_def pick_calls_append)
  next
    case (Inr x)
    note px = this
    obtain q w2 where q: "genInstruction self x w1 = (q, w2)"
      by (cases "genInstruction self x w1")
    show ?thesis
    proof (cases q)
      case (Inl e)
      with Cons.prems p q px ans show ?thesis
        by (auto simp: call_pickWeighted_def call_genInstruction_def pick_calls_append)
    next
      case (Inr rid)
      let ?s2 = "\<lparr>world = w2,
                  trace = (trace s @ [PickWeighted g (Inr x)]) @ [GenInstruction x (Inr rid)]\<rparr>"
      have step: "generate_loop self g (i # rs) s = generate_loop self g rs ?s2"
        using p q Inr px by (simp add: call_pickWeighted_def call_genInstruction_def)
      with Cons.prems have "(g', r) \<in> set (pick_calls (trace (snd (generate_loop self g rs ?s2))))"
        by simp
      from Cons.IH [OF this] px ans show ?thesis
        by (auto simp: pick_calls_append)
    qed
  qed
qed

lemma pick_calls_answered:
  assumes "(g, r) \<in> set (pick_calls (calls self w))"
  shows "\<exists>w'. r = fst (pickWeighted self g w')"
proof -
  obtain ro w1 where o: "getOption self ''instruction_count'' w = (ro, w1)"
    by (cases "getOption self ''instruction_count'' w")
  obtain v w2 where s: "getGlobalState self ''AppRegisterWidth'' w1 = (v, w2)"
    by (cases "getGlobalState self ''AppRegisterWidth'' w1")
  show ?thesis
  proof (cases "py_range (resolved_count ro)")
    case (Inl e)
    with assms show ?thesis
      by (simp add: calls_def run_unfold [OF o s])
  next
    case (Inr rs)
    with assms generate_loop_picks_answered [of g r self "active_group self v" rs
      "\<lparr>world = w2, trace = [GetOption ''instruction_count'' ro,
                              GetGlobalState ''AppRegisterWidth'' v]\<rparr>"]
    show ?thesis
      by (simp add: calls_def run_unfold [OF o s])
  qed
qed

lemma picked_member: "x \<in> set (picked ps) \<Longrightarrow> \<exists>g. (g, Inr x) \<in> set ps"
  by (induction ps rule: picked.induct) auto

lemma replicate_member: "map fst ps = replicate n g \<Longrightarrow> (g', r) \<in> set ps \<Longrightarrow> g' = g"
proof -
  assume ps: "map fst ps = replicate n g" and m: "(g', r) \<in> set ps"
  from m have "g' \<in> set (map fst ps)" by force
  with ps show "g' = g" by simp
qed

lemma pick_at_member: "pick_at g k = Some x \<Longrightarrow> x \<in> fst ` set g"
  by (induction g k rule: pick_at.induct) (auto split: if_splits)

lemma weighted_pick_member: "weighted_pick g k = Inr x \<Longrightarrow> x \<in> fst ` set g"
  by (auto simp: weighted_pick_def pick_at_member split: if_splits option.splits)

lemma answered_append:
  "answered self (xs @ ys) w \<longleftrightarrow> answered self xs w \<and> answered self ys (replay self xs w)"
  by (induction self xs w rule: answered.induct) auto

lemma answered_snoc_pick:
  assumes "answered self t w0" and "replay self t w0 = a"
      and "pickWeighted self g a = (p, b)"
  shows "answered self (t @ [PickWeighted g p]) w0"
    and "replay self (t @ [PickWeighted g p]) w0 = b"
  using assms by (simp_all add: answered_append replay_append)

lemma answered_snoc_gen:
  assumes "answered self t w0" and "replay self t w0 = a"
      and "genInstruction self x a = (q, b)"
  shows "answered self (t @ [GenInstruction x q]) w0"
    and "replay self (t @ [GenInstruction x q]) w0 = b"
  using assms by (simp_all add: answered_append replay_append)

lemma generate_loop_answered:
  assumes "answered self (trace s) w0" and "replay self (trace s) w0 = world s"
  shows "answered self (trace (snd (generate_loop self g r s))) w0"
  using assms
proof (induction r arbitrary: s)
  case Nil
  then show ?case by simp
next
  case (Cons i r)
  obtain p w1 where p: "pickWeighted self g (world s) = (p, w1)"
    by (cases "pickWeighted self g (world s)")
  note s1 = answered_snoc_pick [OF Cons.prems p]
  show ?case
  proof (cases p)
    case (Inl e)
    with p s1(1) show ?thesis by (simp add: call_pickWeighted_def)
  next
    case (Inr x)
    note px = this
    obtain q w2 where q: "genInstruction self x w1 = (q, w2)"
      by (cases "genInstruction self x w1")
    note s2 = answered_snoc_gen [OF s1 q]
    show ?thesis
    proof (cases q)
      case (Inl e)
      with p q px s2(1) show ?thesis
        by (simp add: call_pickWeighted_def call_genInstruction_def)
    next
      case (Inr rid)
      let ?s2 = "\<lparr>world = w2,
                  trace = (trace s @ [PickWeighted g p]) @ [GenInstruction x q]\<rparr>"
      have step: "generate_loop self g (i # r) s = generate_loop self g r ?s2"
        using p q Inr px by (simp add: call_pickWeighted_def call_genInstruction_def)
      have "answered self (trace ?s2) w0" "replay self (trace ?s2) w0 = world ?s2"
        using s2 by simp_all
      then have "answered self (trace (snd (generate_loop self g r ?s2))) w0"
        by (rule Cons.IH)
      with step show ?thesis by simp
    qed
  qed
qed

lemma run_answered: "answered self (calls self w) w"
proof -
  obtain ro w1 where o: "getOption self ''instruction_count'' w = (ro, w1)"
    by (cases "getOption self ''instruction_count'' w")
  obtain v w2 where s: "getGlobalState self ''AppRegisterWidth'' w1 = (v, w2)"
    by (cases "getGlobalState self ''AppRegisterWidth'' w1")
  let ?s2 = "\<lparr>world = w2, trace = [GetOption ''instruction_count'' ro,
                                      GetGlobalState ''AppRegisterWidth'' v]\<rparr>"
  have a: "answered self (trace ?s2) w" using o s by simp
  have r: "replay self (trace ?s2) w = world ?s2" using o s by simp
  show ?thesis
  proof (cases "py_range (resolved_count ro)")
    case (Inl e)
    with a show ?thesis by (simp add: calls_def run_unfold [OF o s])
  next
    case (Inr rs)
    with generate_loop_answered [OF a r, of "active_group self v" rs] show ?thesis
      by (simp add: calls_def run_unfold [OF o s])
  qed
qed

lemma iterations_return: "list_all (\<lambda>ev. \<not> raises ev) (concat (map (iteration g) its))"
  by (induction its) auto

lemma list_all_butlast: "list_all P xs \<Longrightarrow> list_all P (butlast xs)"
  by (auto simp: list_all_iff dest: in_set_butlastD)

lemma list_all_last: "list_all P xs \<Longrightarrow> xs \<noteq> [] \<Longrightarrow> P (last xs)"
  by (simp add: list_all_iff)

subsection \<open>Runs that complete\<close>

text \<open>
  C1. When the call \<open>getOption("instruction_count")\<close> of a run returned a positive integer
  \<open>N\<close> with the flag set, and the run completed without an exception, the run called
  \<open>genInstruction\<close> exactly \<open>N\<close> times.
\<close>

theorem count_fidelity:
  assumes "(''instruction_count'', (VInt N, True)) \<in> set (option_calls (calls self w))"
      and "0 < N"
      and "outcome self w = Inr ()"
  shows "int (length (gen_calls (calls self w))) = N"
proof -
  obtain ro v its en where
    opt: "option_calls (calls self w) = [(''instruction_count'', ro)]" and
    gen: "gen_calls (calls self w) =
       map (\<lambda>(x, rid). (x, Inr rid)) its @ gen_calls (ending_events (active_group self v) en)" and
    cnt: "case py_index (resolved_count ro) of
       None \<Rightarrow> its = [] \<and> en = Completed \<and> outcome self w = Inl TypeError
     | Some n \<Rightarrow> outcome self w = ending_outcome en
         \<and> (if en = Completed then length its = nat n else length its < nat n)"
    by (rule run_projections [of self w])
  from assms(1) opt have ro: "ro = (VInt N, True)" by simp
  with cnt have ends: "outcome self w = ending_outcome en"
      "if en = Completed then length its = nat N else length its < nat N"
    by (simp_all add: resolved_count_def)
  from ends(1) assms(3) have "ending_outcome en = Inr ()" by simp
  then have "en = Completed" by (simp add: ending_Completed)
  with ends(2) have "length its = nat N" by simp
  with gen assms(2) \<open>en = Completed\<close> show ?thesis by simp
qed

theorem count_fidelity_witness:
  "(''instruction_count'', (VInt 3, True)) \<in> set (option_calls (calls (test_env basic) start))
 \<and> (0::int) < 3
 \<and> outcome (test_env basic) start = Inr ()
 \<and> int (length (gen_calls (calls (test_env basic) start))) = 3"
proof -
  have h1: "(''instruction_count'', (VInt 3, True))
              \<in> set (option_calls (calls (test_env basic) start))"
    by code_simp
  have h2: "(0::int) < 3" by simp
  have h3: "outcome (test_env basic) start = Inr ()"
    by code_simp
  from h1 h2 h3 count_fidelity [OF h1 h2 h3] show ?thesis by simp
qed

text \<open>
  C5. When the call \<open>getOption("instruction_count")\<close> of a run reported the option as
  absent (whatever value came with the flag), the count is the default 100: a run that
  completed without an exception called \<open>genInstruction\<close> exactly 100 times.
\<close>

theorem default_count:
  assumes "(''instruction_count'', (c, False)) \<in> set (option_calls (calls self w))"
      and "outcome self w = Inr ()"
  shows "length (gen_calls (calls self w)) = 100"
proof -
  obtain ro v its en where
    opt: "option_calls (calls self w) = [(''instruction_count'', ro)]" and
    gen: "gen_calls (calls self w) =
       map (\<lambda>(x, rid). (x, Inr rid)) its @ gen_calls (ending_events (active_group self v) en)" and
    cnt: "case py_index (resolved_count ro) of
       None \<Rightarrow> its = [] \<and> en = Completed \<and> outcome self w = Inl TypeError
     | Some n \<Rightarrow> outcome self w = ending_outcome en
         \<and> (if en = Completed then length its = nat n else length its < nat n)"
    by (rule run_projections [of self w])
  from assms(1) opt have ro: "ro = (c, False)" by simp
  with cnt have ends: "outcome self w = ending_outcome en"
      "if en = Completed then length its = 100 else length its < 100"
    by (simp_all add: resolved_count_def split: if_splits)
  from ends(1) assms(2) have "ending_outcome en = Inr ()" by simp
  then have "en = Completed" by (simp add: ending_Completed)
  with ends(2) have "length its = 100" by simp
  with gen \<open>en = Completed\<close> show ?thesis by simp
qed

theorem default_count_witness:
  "(''instruction_count'', (VNone, False))
     \<in> set (option_calls (calls (test_env (basic\<lparr>count_option := (VNone, False)\<rparr>)) start))
 \<and> outcome (test_env (basic\<lparr>count_option := (VNone, False)\<rparr>)) start = Inr ()
 \<and> length (gen_calls (calls (test_env (basic\<lparr>count_option := (VNone, False)\<rparr>)) start)) = 100"
proof -
  let ?sc = "basic\<lparr>count_option := (VNone, False)\<rparr>"
  have h1: "(''instruction_count'', (VNone, False))
              \<in> set (option_calls (calls (test_env ?sc) start))"
    by (simp add: option_calls_run test_env_def basic_def)
  have h2: "outcome (test_env ?sc) start = Inr ()"
    by (rule test_env_completes [where n = 100]) (simp_all add: basic_def resolved_count_def)
  from h1 h2 default_count [OF h1 h2] show ?thesis by simp
qed

text \<open>
  C10. When the option is present with an integer \<open>N \<le> 0\<close>, the run completes without
  an exception, calls neither \<open>pickWeighted\<close> nor \<open>genInstruction\<close>, and has still
  queried the global state \<open>AppRegisterWidth\<close>, once.
\<close>

theorem nonpositive_count:
  assumes "(''instruction_count'', (VInt N, True)) \<in> set (option_calls (calls self w))"
      and "N \<le> 0"
  shows "outcome self w = Inr ()
       \<and> pick_calls (calls self w) = []
       \<and> gen_calls (calls self w) = []
       \<and> map fst (state_calls (calls self w)) = [''AppRegisterWidth'']"
proof -
  obtain ro v its en where
    opt: "option_calls (calls self w) = [(''instruction_count'', ro)]" and
    st: "state_calls (calls self w) = [(''AppRegisterWidth'', v)]" and
    pick: "pick_calls (calls self w) =
       map (\<lambda>(x, rid). (active_group self v, Inr x)) its @
       pick_calls (ending_events (active_group self v) en)" and
    gen: "gen_calls (calls self w) =
       map (\<lambda>(x, rid). (x, Inr rid)) its @ gen_calls (ending_events (active_group self v) en)" and
    cnt: "case py_index (resolved_count ro) of
       None \<Rightarrow> its = [] \<and> en = Completed \<and> outcome self w = Inl TypeError
     | Some n \<Rightarrow> outcome self w = ending_outcome en
         \<and> (if en = Completed then length its = nat n else length its < nat n)"
    by (rule run_projections [of self w])
  from assms(1) opt have ro: "ro = (VInt N, True)" by simp
  with cnt have ends: "outcome self w = ending_outcome en"
      "if en = Completed then length its = nat N else length its < nat N"
    by (simp_all add: resolved_count_def)
  from ends(2) assms(2) have "en = Completed" "its = []"
    by (simp_all split: if_splits)
  with ends(1) pick gen st show ?thesis by simp
qed

theorem nonpositive_count_witness:
  "(''instruction_count'', (VInt (- 2), True))
     \<in> set (option_calls (calls (test_env (basic\<lparr>count_option := (VInt (- 2), True)\<rparr>)) start))
 \<and> (- 2::int) \<le> 0
 \<and> outcome (test_env (basic\<lparr>count_option := (VInt (- 2), True)\<rparr>)) start = Inr ()
 \<and> pick_calls (calls (test_env (basic\<lparr>count_option := (VInt (- 2), True)\<rparr>)) start) = []
 \<and> gen_calls (calls (test_env (basic\<lparr>count_option := (VInt (- 2), True)\<rparr>)) start) = []
 \<and> map fst (state_calls (calls (test_env (basic\<lparr>count_option := (VInt (- 2), True)\<rparr>)) start))
     = [''AppRegisterWidth'']"
proof -
  let ?sc = "basic\<lparr>count_option := (VInt (- 2), True)\<rparr>"
  have h1: "(''instruction_count'', (VInt (- 2), True))
              \<in> set (option_calls (calls (test_env ?sc) start))"
    by code_simp
  have h2: "(- 2::int) \<le> 0" by simp
  from h1 h2 nonpositive_count [OF h1 h2] show ?thesis by simp
qed

subsection \<open>The order of the calls\<close>

text \<open>
  C8. In every run \<open>getOption\<close> is called exactly once, for \<open>instruction_count\<close>, and
  \<open>getGlobalState\<close> exactly once, for \<open>AppRegisterWidth\<close>. They are the first and the
  second call of the run, so both come before any call of \<open>pickWeighted\<close> or
  \<open>genInstruction\<close>, and neither is repeated among the calls of the loop.
\<close>

theorem configuration_read_once:
  "map fst (option_calls (calls self w)) = [''instruction_count'']
 \<and> map fst (state_calls (calls self w)) = [''AppRegisterWidth'']
 \<and> map fst (option_calls (take 1 (calls self w))) = [''instruction_count'']
 \<and> map fst (state_calls (take 1 (drop 1 (calls self w)))) = [''AppRegisterWidth'']
 \<and> pick_calls (take 2 (calls self w)) = []
 \<and> gen_calls (take 2 (calls self w)) = []
 \<and> option_calls (drop 2 (calls self w)) = []
 \<and> state_calls (drop 2 (calls self w)) = []"
proof -
  obtain ro v its en where
    c: "calls self w =
       GetOption ''instruction_count'' ro # GetGlobalState ''AppRegisterWidth'' v #
       concat (map (iteration (active_group self v)) its) @
       ending_events (active_group self v) en"
    by (rule run_projections [of self w])
  show ?thesis
    by (simp add: c option_calls_append state_calls_append option_calls_iterations
        state_calls_iterations)
qed

text \<open>
  C6. Take a run whose configuration calls returned \<open>ro\<close> for the option and \<open>v\<close> for
  the register width. After these two calls the run consists of calls of \<open>pickWeighted\<close>
  and \<open>genInstruction\<close> in strict alternation, starting with \<open>pickWeighted\<close>, and of
  nothing else: the \<open>i\<close>-th call of \<open>genInstruction\<close> comes after the \<open>i\<close>-th call of
  \<open>pickWeighted\<close> and before the next one. Every call of \<open>pickWeighted\<close> is on the
  active group, \<open>RV32F_instructions\<close> when \<open>v == 32\<close> and \<open>RV64F_instructions\<close>
  otherwise. Every name that \<open>pickWeighted\<close> returned is submitted, and the \<open>i\<close>-th call
  of \<open>genInstruction\<close> was passed exactly the name that the \<open>i\<close>-th call of
  \<open>pickWeighted\<close> returned. No call but the last one of the run raised: a call that
  raises ends the run. No iteration is skipped: with a count that is no integer there is
  no iteration, with the integer count \<open>n\<close> there are at most \<open>n\<close>, and exactly \<open>n\<close> calls
  of each kind when the last call of the run did not raise. Every event holds the answer
  which the environment gave in the state that the calls before it had left: each call is
  made after the one before it has returned.
\<close>

theorem iterations_sequential:
  assumes "(''instruction_count'', ro) \<in> set (option_calls (calls self w))"
      and "(''AppRegisterWidth'', v) \<in> set (state_calls (calls self w))"
  shows "calls self w =
           [GetOption ''instruction_count'' ro, GetGlobalState ''AppRegisterWidth'' v] @
           splice (map pick_event (pick_calls (calls self w)))
                  (map gen_event (gen_calls (calls self w)))
       \<and> length (gen_calls (calls self w)) \<le> length (pick_calls (calls self w))
       \<and> length (pick_calls (calls self w)) \<le> Suc (length (gen_calls (calls self w)))
       \<and> map fst (pick_calls (calls self w)) =
           replicate (length (pick_calls (calls self w)))
             (if py_eq v (VInt 32) then RV32F_instructions self else RV64F_instructions self)
       \<and> map fst (gen_calls (calls self w)) = picked (pick_calls (calls self w))
       \<and> take (length (gen_calls (calls self w))) (map snd (pick_calls (calls self w))) =
           map (\<lambda>(x, r). Inr x) (gen_calls (calls self w))
       \<and> list_all (\<lambda>ev. \<not> raises ev) (butlast (calls self w))
       \<and> (case py_index (if snd ro then fst ro else VInt 100) of
             None \<Rightarrow> pick_calls (calls self w) = [] \<and> gen_calls (calls self w) = []
           | Some n \<Rightarrow>
               length (pick_calls (calls self w)) \<le> nat n
             \<and> (\<not> raises (last (calls self w)) \<longrightarrow>
                  length (pick_calls (calls self w)) = nat n
                \<and> length (gen_calls (calls self w)) = nat n))
       \<and> answered self (calls self w) w"
proof -
  obtain ro' v' its en where
    c: "calls self w =
       GetOption ''instruction_count'' ro' # GetGlobalState ''AppRegisterWidth'' v' #
       concat (map (iteration (active_group self v')) its) @
       ending_events (active_group self v') en" and
    opt: "option_calls (calls self w) = [(''instruction_count'', ro')]" and
    st: "state_calls (calls self w) = [(''AppRegisterWidth'', v')]" and
    pick: "pick_calls (calls self w) =
       map (\<lambda>(x, rid). (active_group self v', Inr x)) its @
       pick_calls (ending_events (active_group self v') en)" and
    gen: "gen_calls (calls self w) =
       map (\<lambda>(x, rid). (x, Inr rid)) its @ gen_calls (ending_events (active_group self v') en)" and
    cnt: "case py_index (resolved_count ro') of
       None \<Rightarrow> its = [] \<and> en = Completed \<and> outcome self w = Inl TypeError
     | Some n \<Rightarrow> outcome self w = ending_outcome en
         \<and> (if en = Completed then length its = nat n else length its < nat n)"
    by (rule run_projections [of self w])
  from assms(1) opt have ro: "ro' = ro" by simp
  from assms(2) st have v: "v' = v" by simp
  let ?g = "active_group self v"
  let ?hdr = "[GetOption ''instruction_count'' ro, GetGlobalState ''AppRegisterWidth'' v]"
  let ?its = "concat (map (iteration ?g) its)"
  have c': "calls self w = ?hdr @ ?its @ ending_events ?g en"
    using c ro v by simp
  have "splice (map pick_event (pick_calls (calls self w)))
               (map gen_event (gen_calls (calls self w))) = ?its @ ending_events ?g en"
    unfolding pick gen v splice_iterations by (cases en) simp_all
  with c' have alt: "calls self w = ?hdr @
      splice (map pick_event (pick_calls (calls self w)))
             (map gen_event (gen_calls (calls self w)))"
    by simp
  have len: "length (gen_calls (calls self w)) \<le> length (pick_calls (calls self w))"
       "length (pick_calls (calls self w)) \<le> Suc (length (gen_calls (calls self w)))"
    unfolding pick gen by (cases en; simp)+
  have groups: "map fst (pick_calls (calls self w)) =
      replicate (length (pick_calls (calls self w)))
        (if py_eq v (VInt 32) then RV32F_instructions self else RV64F_instructions self)"
    unfolding pick v active_group_def [symmetric]
    by (cases en) (simp_all add: groups_iterations replicate_append_same del: map_map)
  have names: "map fst (gen_calls (calls self w)) = picked (pick_calls (calls self w))"
    unfolding pick gen
    by (cases en) (simp_all add: picked_append picked_returned names_iterations del: map_map)
  have ret: "take (length (gen_calls (calls self w))) (map snd (pick_calls (calls self w))) =
     map (\<lambda>(x, r). Inr x) (gen_calls (calls self w))"
    unfolding pick gen
    by (cases en) (simp_all add: returned_iterations del: map_map)
  have quiet: "list_all (\<lambda>ev. \<not> raises ev) (?hdr @ ?its)"
    using iterations_return [of ?g its] by simp
  have early: "list_all (\<lambda>ev. \<not> raises ev) (butlast (calls self w))"
  proof (cases en)
    case Completed
    with c' have "calls self w = ?hdr @ ?its" by simp
    with list_all_butlast [OF quiet] show ?thesis by simp
  next
    case (PickRaised e)
    with c' have "calls self w = (?hdr @ ?its) @ [PickWeighted ?g (Inl e)]" by simp
    then have "butlast (calls self w) = ?hdr @ ?its" by (simp only: butlast_snoc)
    with quiet show ?thesis by simp
  next
    case (GenRaised x e)
    with c' have "calls self w =
        ((?hdr @ ?its) @ [PickWeighted ?g (Inr x)]) @ [GenInstruction x (Inl e)]" by simp
    then have "butlast (calls self w) = (?hdr @ ?its) @ [PickWeighted ?g (Inr x)]"
      by (simp only: butlast_snoc)
    with quiet show ?thesis by simp
  qed
  have last_quiet: "\<not> raises (last (calls self w)) \<Longrightarrow> en = Completed"
    by (cases en) (simp_all add: c')
  have count: "case py_index (if snd ro then fst ro else VInt 100) of
             None \<Rightarrow> pick_calls (calls self w) = [] \<and> gen_calls (calls self w) = []
           | Some n \<Rightarrow>
               length (pick_calls (calls self w)) \<le> nat n
             \<and> (\<not> raises (last (calls self w)) \<longrightarrow>
                  length (pick_calls (calls self w)) = nat n
                \<and> length (gen_calls (calls self w)) = nat n)"
  proof (cases "py_index (resolved_count ro)")
    case None
    with cnt ro have "its = []" "en = Completed" by simp_all
    with None show ?thesis by (simp add: pick gen resolved_count_def)
  next
    case (Some n)
    with cnt ro have l: "if en = Completed then length its = nat n else length its < nat n"
      by simp
    have le: "length (pick_calls (calls self w)) \<le> nat n"
      using l unfolding pick by (cases en) simp_all
    have full: "length (pick_calls (calls self w)) = nat n
                \<and> length (gen_calls (calls self w)) = nat n"
      if "\<not> raises (last (calls self w))"
    proof -
      from that have "en = Completed" by (rule last_quiet)
      with l show ?thesis by (simp add: pick gen)
    qed
    from le full Some show ?thesis by (simp add: resolved_count_def)
  qed
  from alt len groups names ret early count run_answered [of self w] show ?thesis
    by blast
qed

theorem iterations_sequential_witness:
  "(''instruction_count'', (VInt 3, True)) \<in> set (option_calls (calls (test_env basic) start))
 \<and> (''AppRegisterWidth'', VInt 64) \<in> set (state_calls (calls (test_env basic) start))
 \<and> \<not> raises (last (calls (test_env basic) start))
 \<and> length (pick_calls (calls (test_env basic) start)) = 3
 \<and> length (gen_calls (calls (test_env basic) start)) = 3
 \<and> map fst (pick_calls (calls (test_env basic) start)) =
     replicate (length (pick_calls (calls (test_env basic) start)))
       (RV64F_instructions (test_env basic))
 \<and> map fst (gen_calls (calls (test_env basic) start)) =
     picked (pick_calls (calls (test_env basic) start))
 \<and> answered (test_env basic) (calls (test_env basic) start) start"
proof -
  have h1: "(''instruction_count'', (VInt 3, True))
      \<in> set (option_calls (calls (test_env basic) start))"
    by code_simp
  have h2: "(''AppRegisterWidth'', VInt 64) \<in> set (state_calls (calls (test_env basic) start))"
    by code_simp
  have h3: "\<not> raises (last (calls (test_env basic) start))"
    by code_simp
  note t = iterations_sequential [OF h1 h2]
  have g: "map fst (pick_calls (calls (test_env basic) start)) =
     replicate (length (pick_calls (calls (test_env basic) start)))
       (RV64F_instructions (test_env basic))"
    using t by simp
  have p: "map fst (gen_calls (calls (test_env basic) start)) =
     picked (pick_calls (calls (test_env basic) start))"
    using t by blast
  have n: "length (pick_calls (calls (test_env basic) start)) = 3
         \<and> length (gen_calls (calls (test_env basic) start)) = 3"
    using t h3 by simp
  have a: "answered (test_env basic) (calls (test_env basic) start) start"
    using t by blast
  from h1 h2 h3 g p n a show ?thesis by blast
qed

subsection \<open>The group of a run\<close>

text \<open>
  C2. When \<open>getGlobalState('AppRegisterWidth')\<close> returned 32, every call of
  \<open>pickWeighted\<close> in the run was made on \<open>RV32F_instructions\<close>; when it returned 64,
  every one was made on \<open>RV64F_instructions\<close>: one group for all the iterations. In both
  cases the names passed to \<open>genInstruction\<close> are, in order, the names that these calls
  of \<open>pickWeighted\<close> returned. So when \<open>pickWeighted\<close> only ever returns a name of the
  group that it is given, every submitted name is a name of that group.
\<close>

theorem width_selects_group:
  assumes "(''AppRegisterWidth'', VInt W) \<in> set (state_calls (calls self w))"
  shows "(W = 32 \<longrightarrow> map fst (pick_calls (calls self w)) =
            replicate (length (pick_calls (calls self w))) (RV32F_instructions self))
       \<and> (W = 64 \<longrightarrow> map fst (pick_calls (calls self w)) =
            replicate (length (pick_calls (calls self w))) (RV64F_instructions self))
       \<and> map fst (gen_calls (calls self w)) = picked (pick_calls (calls self w))
       \<and> ((\<forall>g w' x. fst (pickWeighted self g w') = Inr x \<longrightarrow> x \<in> fst ` set g) \<longrightarrow>
            (W = 32 \<longrightarrow> set (map fst (gen_calls (calls self w)))
                          \<subseteq> fst ` set (RV32F_instructions self))
          \<and> (W = 64 \<longrightarrow> set (map fst (gen_calls (calls self w)))
                          \<subseteq> fst ` set (RV64F_instructions self)))"
proof -
  obtain ro v its en where
    st: "state_calls (calls self w) = [(''AppRegisterWidth'', v)]" and
    pick: "pick_calls (calls self w) =
       map (\<lambda>(x, rid). (active_group self v, Inr x)) its @
       pick_calls (ending_events (active_group self v) en)" and
    gen: "gen_calls (calls self w) =
       map (\<lambda>(x, rid). (x, Inr rid)) its @ gen_calls (ending_events (active_group self v) en)"
    by (rule run_projections [of self w])
  from assms st have v: "v = VInt W" by simp
  let ?g = "active_group self v"
  have groups: "map fst (pick_calls (calls self w)) =
      replicate (length (pick_calls (calls self w))) ?g"
    unfolding pick by (cases en) (simp_all add: groups_iterations replicate_append_same del: map_map)
  have names: "map fst (gen_calls (calls self w)) = picked (pick_calls (calls self w))"
    unfolding pick gen
    by (cases en) (simp_all add: picked_append picked_returned names_iterations del: map_map)
  have drawn: "set (map fst (gen_calls (calls self w))) \<subseteq> fst ` set ?g"
    if contract: "\<forall>g w' x. fst (pickWeighted self g w') = Inr x \<longrightarrow> x \<in> fst ` set g"
  proof
    fix x
    assume "x \<in> set (map fst (gen_calls (calls self w)))"
    with names have "x \<in> set (picked (pick_calls (calls self w)))" by simp
    then obtain g where g: "(g, Inr x) \<in> set (pick_calls (calls self w))"
      using picked_member by blast
    with groups have "g = ?g" by (rule replicate_member)
    moreover from pick_calls_answered [OF g]
    obtain w' where "fst (pickWeighted self g w') = Inr x"
      by auto
    ultimately show "x \<in> fst ` set ?g"
      using contract by metis
  qed
  have g32: "?g = RV32F_instructions self" if "W = 32"
    using that v by (simp add: active_group_def)
  have g64: "?g = RV64F_instructions self" if "W = 64"
    using that v by (simp add: active_group_def)
  from groups names drawn g32 g64 show ?thesis
    by metis
qed

theorem width_selects_group_witness:
  "(''AppRegisterWidth'', VInt 32)
     \<in> set (state_calls (calls (test_env (basic\<lparr>register_width := VInt 32\<rparr>)) start))
 \<and> map fst (pick_calls (calls (test_env (basic\<lparr>register_width := VInt 32\<rparr>)) start)) =
     replicate (length (pick_calls (calls (test_env (basic\<lparr>register_width := VInt 32\<rparr>)) start)))
       (RV32F_instructions (test_env (basic\<lparr>register_width := VInt 32\<rparr>)))
 \<and> set (map fst (gen_calls (calls (test_env (basic\<lparr>register_width := VInt 32\<rparr>)) start)))
     \<subseteq> fst ` set (RV32F_instructions (test_env (basic\<lparr>register_width := VInt 32\<rparr>)))
 \<and> (''AppRegisterWidth'', VInt 64) \<in> set (state_calls (calls (test_env basic) start))
 \<and> map fst (pick_calls (calls (test_env basic) start)) =
     replicate (length (pick_calls (calls (test_env basic) start)))
       (RV64F_instructions (test_env basic))
 \<and> map fst (gen_calls (calls (test_env basic) start)) =
     picked (pick_calls (calls (test_env basic) start))
 \<and> set (map fst (gen_calls (calls (test_env basic) start)))
     \<subseteq> fst ` set (RV64F_instructions (test_env basic))
 \<and> length (gen_calls (calls (test_env basic) start)) = 3"
proof -
  let ?sc = "basic\<lparr>register_width := VInt 32\<rparr>"
  have h32: "(''AppRegisterWidth'', VInt 32) \<in> set (state_calls (calls (test_env ?sc) start))"
    by code_simp
  have h64: "(''AppRegisterWidth'', VInt 64) \<in> set (state_calls (calls (test_env basic) start))"
    by code_simp
  have n: "length (gen_calls (calls (test_env basic) start)) = 3"
    by code_simp
  have contract: "\<forall>g w' x. fst (pickWeighted (test_env sc) g w') = Inr x \<longrightarrow> x \<in> fst ` set g"
    for sc
    by (simp add: test_env_def weighted_pick_member)
  note t32 = width_selects_group [OF h32]
  note t64 = width_selects_group [OF h64]
  have g32: "map fst (pick_calls (calls (test_env ?sc) start)) =
     replicate (length (pick_calls (calls (test_env ?sc) start)))
       (RV32F_instructions (test_env ?sc))"
    using t32 [THEN conjunct1] by simp
  have d32: "set (map fst (gen_calls (calls (test_env ?sc) start)))
     \<subseteq> fst ` set (RV32F_instructions (test_env ?sc))"
    using t32 [THEN conjunct2, THEN conjunct2, THEN conjunct2] contract [of ?sc] by simp
  have g64: "map fst (pick_calls (calls (test_env basic) start)) =
     replicate (length (pick_calls (calls (test_env basic) start)))
       (RV64F_instructions (test_env basic))"
    using t64 [THEN conjunct2, THEN conjunct1] by simp
  have p64: "map fst (gen_calls (calls (test_env basic) start)) =
     picked (pick_calls (calls (test_env basic) start))"
    using t64 [THEN conjunct2, THEN conjunct2, THEN conjunct1] .
  have d64: "set (map fst (gen_calls (calls (test_env basic) start)))
     \<subseteq> fst ` set (RV64F_instructions (test_env basic))"
    using t64 [THEN conjunct2, THEN conjunct2, THEN conjunct2] contract [of basic] by simp
  from h32 g32 d32 h64 g64 p64 d64 n show ?thesis
    by blast
qed

subsection \<open>Exceptions\<close>

text \<open>
  C9. An exception of \<open>pickWeighted\<close> or \<open>genInstruction\<close> ends the run and is its
  outcome. If the call of \<open>pickWeighted\<close> number \<open>i\<close> (counting from 0) raised \<open>e\<close>, the
  run raised \<open>e\<close>, this call is the last call of the run, and \<open>genInstruction\<close> was
  called \<open>i\<close> times, in the iterations before. If the call of \<open>genInstruction\<close> number
  \<open>i\<close> raised \<open>e\<close>, the run raised \<open>e\<close>, this call is the last call of the run, and it
  is the call of iteration \<open>i\<close>: nothing is tried again. On a group on which
  \<open>pickWeighted\<close> raises whatever the state of the generator (an empty group, a group of
  total weight zero), no name is ever submitted, and \<open>pickWeighted\<close> is called at most
  once. Nothing is undone: the generator is left in the state that the calls of the run
  have produced, one after the other.
\<close>

theorem exceptions_propagate:
  "(\<forall>i g e. i < length (pick_calls (calls self w))
            \<and> pick_calls (calls self w) ! i = (g, Inl e) \<longrightarrow>
       outcome self w = Inl e
     \<and> length (pick_calls (calls self w)) = Suc i
     \<and> length (gen_calls (calls self w)) = i
     \<and> last (calls self w) = PickWeighted g (Inl e))
 \<and> (\<forall>i x e. i < length (gen_calls (calls self w))
            \<and> gen_calls (calls self w) ! i = (x, Inl e) \<longrightarrow>
       outcome self w = Inl e
     \<and> length (gen_calls (calls self w)) = Suc i
     \<and> length (pick_calls (calls self w)) = Suc i
     \<and> last (calls self w) = GenInstruction x (Inl e))
 \<and> (\<forall>v. (''AppRegisterWidth'', v) \<in> set (state_calls (calls self w))
         \<and> (\<forall>w'. isl (fst (pickWeighted self (active_group self v) w'))) \<longrightarrow>
       gen_calls (calls self w) = [] \<and> length (pick_calls (calls self w)) \<le> 1)
 \<and> final_world self w = replay self (calls self w) w"
proof -
  obtain ro v its en where
    c: "calls self w =
       GetOption ''instruction_count'' ro # GetGlobalState ''AppRegisterWidth'' v #
       concat (map (iteration (active_group self v)) its) @
       ending_events (active_group self v) en" and
    pick: "pick_calls (calls self w) =
       map (\<lambda>(x, rid). (active_group self v, Inr x)) its @
       pick_calls (ending_events (active_group self v) en)" and
    gen: "gen_calls (calls self w) =
       map (\<lambda>(x, rid). (x, Inr rid)) its @ gen_calls (ending_events (active_group self v) en)" and
    cnt: "case py_index (resolved_count ro) of
       None \<Rightarrow> its = [] \<and> en = Completed \<and> outcome self w = Inl TypeError
     | Some n \<Rightarrow> outcome self w = ending_outcome en
         \<and> (if en = Completed then length its = nat n else length its < nat n)" and
    fin: "final_world self w = replay self (calls self w) w"
    by (rule run_projections [of self w])
  let ?g = "active_group self v"
  have out: "outcome self w = ending_outcome en" if "en \<noteq> Completed"
    using cnt that by (cases "py_index (resolved_count ro)") simp_all
  have a: "outcome self w = Inl e
     \<and> length (pick_calls (calls self w)) = Suc i
     \<and> length (gen_calls (calls self w)) = i
     \<and> last (calls self w) = PickWeighted g (Inl e)"
    if i: "i < length (pick_calls (calls self w))"
      and r: "pick_calls (calls self w) ! i = (g, Inl e)" for i g e
  proof -
    have early: "i < length its \<Longrightarrow> False"
      using r by (simp add: pick nth_append case_prod_beta)
    show ?thesis
    proof (cases en)
      case Completed
      with i early show ?thesis by (simp add: pick)
    next
      case (PickRaised e')
      with i early have "i = length its"
        by (cases "i < length its") (simp_all add: pick)
      with r PickRaised have "g = ?g" "e' = e"
        by (simp_all add: pick nth_append)
      have "last (calls self w) = PickWeighted g (Inl e)"
        using PickRaised \<open>g = ?g\<close> \<open>e' = e\<close> by (simp add: c)
      moreover have "length (pick_calls (calls self w)) = Suc i"
          "length (gen_calls (calls self w)) = i"
        using PickRaised \<open>i = length its\<close> by (simp_all add: pick gen)
      moreover have "outcome self w = Inl e"
        using PickRaised \<open>e' = e\<close> out by simp
      ultimately show ?thesis by simp
    next
      case (GenRaised x' e')
      with i early have "i = length its"
        by (cases "i < length its") (simp_all add: pick)
      with r GenRaised show ?thesis
        by (simp add: pick nth_append)
    qed
  qed
  have b: "outcome self w = Inl e
     \<and> length (gen_calls (calls self w)) = Suc i
     \<and> length (pick_calls (calls self w)) = Suc i
     \<and> last (calls self w) = GenInstruction x (Inl e)"
    if i: "i < length (gen_calls (calls self w))"
      and r: "gen_calls (calls self w) ! i = (x, Inl e)" for i x e
  proof -
    have early: "i < length its \<Longrightarrow> False"
      using r by (simp add: gen nth_append case_prod_beta)
    show ?thesis
    proof (cases en)
      case Completed
      with i early show ?thesis by (simp add: gen)
    next
      case (PickRaised e')
      with i early show ?thesis by (simp add: gen)
    next
      case (GenRaised x' e')
      with i early have "i = length its"
        by (cases "i < length its") (simp_all add: gen)
      with r GenRaised have "x' = x" "e' = e"
        by (simp_all add: gen nth_append)
      have "last (calls self w) = GenInstruction x (Inl e)"
        using GenRaised \<open>x' = x\<close> \<open>e' = e\<close> by (simp add: c)
      moreover have "length (pick_calls (calls self w)) = Suc i"
          "length (gen_calls (calls self w)) = Suc i"
        using GenRaised \<open>i = length its\<close> by (simp_all add: pick gen)
      moreover have "outcome self w = Inl e"
        using GenRaised \<open>e' = e\<close> out by simp
      ultimately show ?thesis by simp
    qed
  qed
  have st: "state_calls (calls self w) =
     [(''AppRegisterWidth'', fst (getGlobalState self ''AppRegisterWidth''
        (snd (getOption self ''instruction_count'' w))))]"
    by (rule state_calls_run)
  have cc: "gen_calls (calls self w) = [] \<and> length (pick_calls (calls self w)) \<le> 1"
    if "(''AppRegisterWidth'', v') \<in> set (state_calls (calls self w))"
      and "\<forall>w'. isl (fst (pickWeighted self (active_group self v') w'))" for v'
  proof (rule run_unpickable)
    fix w'
    from that(1) st have "v' = fst (getGlobalState self ''AppRegisterWidth''
        (snd (getOption self ''instruction_count'' w)))" by simp
    with that(2) show "isl (fst (pickWeighted self (active_group self
             (fst (getGlobalState self ''AppRegisterWidth''
               (snd (getOption self ''instruction_count'' w))))) w'))" by simp
  qed
  from a b cc fin show ?thesis by blast
qed

theorem exceptions_propagate_witness:
  "0 < length (pick_calls (calls (test_env empty_group) start))
 \<and> pick_calls (calls (test_env empty_group) start) ! 0 = ([], Inl (Raised ''SelectionError''))
 \<and> outcome (test_env empty_group) start = Inl (Raised ''SelectionError'')
 \<and> length (pick_calls (calls (test_env empty_group) start)) = Suc 0
 \<and> length (gen_calls (calls (test_env empty_group) start)) = 0
 \<and> last (calls (test_env empty_group) start) = PickWeighted [] (Inl (Raised ''SelectionError''))
 \<and> 1 < length (gen_calls (calls (test_env unsupported_second) start))
 \<and> gen_calls (calls (test_env unsupported_second) start) ! 1 =
     (''FCVT.S.L##RISCV'', Inl (Raised ''GenerationError''))
 \<and> outcome (test_env unsupported_second) start = Inl (Raised ''GenerationError'')
 \<and> length (gen_calls (calls (test_env unsupported_second) start)) = Suc 1
 \<and> length (pick_calls (calls (test_env unsupported_second) start)) = Suc 1
 \<and> last (calls (test_env unsupported_second) start) =
     GenInstruction ''FCVT.S.L##RISCV'' (Inl (Raised ''GenerationError''))
 \<and> (''AppRegisterWidth'', VInt 64) \<in> set (state_calls (calls (test_env empty_group) start))
 \<and> (\<forall>w'. isl (fst (pickWeighted (test_env empty_group)
            (active_group (test_env empty_group) (VInt 64)) w')))
 \<and> gen_calls (calls (test_env empty_group) start) = []
 \<and> length (pick_calls (calls (test_env empty_group) start)) \<le> 1
 \<and> final_world (test_env unsupported_second) start =
     replay (test_env unsupported_second) (calls (test_env unsupported_second) start) start"
proof -
  note e = exceptions_propagate [of "test_env empty_group" start]
  note u = exceptions_propagate [of "test_env unsupported_second" start]
  have a1: "0 < length (pick_calls (calls (test_env empty_group) start))"
    by code_simp
  have a2: "pick_calls (calls (test_env empty_group) start) ! 0 =
      ([], Inl (Raised ''SelectionError''))"
    by code_simp
  have b1: "1 < length (gen_calls (calls (test_env unsupported_second) start))"
    by code_simp
  have b2: "gen_calls (calls (test_env unsupported_second) start) ! 1 =
     (''FCVT.S.L##RISCV'', Inl (Raised ''GenerationError''))"
    by code_simp
  have c1: "(''AppRegisterWidth'', VInt 64)
      \<in> set (state_calls (calls (test_env empty_group) start))"
    by code_simp
  have c2: "\<forall>w'. isl (fst (pickWeighted (test_env empty_group)
            (active_group (test_env empty_group) (VInt 64)) w'))"
    by (simp add: test_env_def empty_group_def active_group_def weighted_pick_def)
  from e a1 a2 have a: "outcome (test_env empty_group) start = Inl (Raised ''SelectionError'')
     \<and> length (pick_calls (calls (test_env empty_group) start)) = Suc 0
     \<and> length (gen_calls (calls (test_env empty_group) start)) = 0
     \<and> last (calls (test_env empty_group) start) = PickWeighted [] (Inl (Raised ''SelectionError''))"
    by blast
  from u b1 b2 have b: "outcome (test_env unsupported_second) start = Inl (Raised ''GenerationError'')
     \<and> length (gen_calls (calls (test_env unsupported_second) start)) = Suc 1
     \<and> length (pick_calls (calls (test_env unsupported_second) start)) = Suc 1
     \<and> last (calls (test_env unsupported_second) start) =
         GenInstruction ''FCVT.S.L##RISCV'' (Inl (Raised ''GenerationError''))"
    by blast
  from e c1 c2 have c: "gen_calls (calls (test_env empty_group) start) = []
     \<and> length (pick_calls (calls (test_env empty_group) start)) \<le> 1"
    by blast
  from u have d: "final_world (test_env unsupported_second) start =
     replay (test_env unsupported_second) (calls (test_env unsupported_second) start) start"
    by blast
  from a1 a2 b1 b2 c1 c2 a b c d show ?thesis by blast
qed

subsection \<open>Values that the configuration is not meant to hold\<close>

text \<open>
  C3 as it is stated asks for a configuration error, before any submission, when the
  option is present with a value that is not a positive integer. With the value 0 the
  run raises nothing: it completes.
\<close>

theorem zero_count_counterexample:
  "(''instruction_count'', (VInt 0, True))
     \<in> set (option_calls (calls (test_env (basic\<lparr>count_option := (VInt 0, True)\<rparr>)) start))
 \<and> outcome (test_env (basic\<lparr>count_option := (VInt 0, True)\<rparr>)) start = Inr ()"
  by code_simp

text \<open>
  C3, amended. \<open>generate\<close> does not check the option. When it is present with a value
  that is not a positive integer, the run calls neither \<open>pickWeighted\<close> nor
  \<open>genInstruction\<close>, after it has queried \<open>AppRegisterWidth\<close>. It raises only when the
  value is not an integer at all (a string, \<open>None\<close>): then \<open>range\<close> raises a
  \<open>TypeError\<close>. With an integer that is zero or negative it raises nothing and completes:
  the value is used as the bound of the range, which is empty.
\<close>

theorem invalid_count:
  assumes "(''instruction_count'', (c, True)) \<in> set (option_calls (calls self w))"
      and "\<not> (\<exists>n. py_index c = Some n \<and> 0 < n)"
  shows "pick_calls (calls self w) = []
       \<and> gen_calls (calls self w) = []
       \<and> map fst (state_calls (calls self w)) = [''AppRegisterWidth'']
       \<and> outcome self w = (if py_index c = None then Inl TypeError else Inr ())"
proof -
  obtain ro v its en where
    opt: "option_calls (calls self w) = [(''instruction_count'', ro)]" and
    st: "state_calls (calls self w) = [(''AppRegisterWidth'', v)]" and
    pick: "pick_calls (calls self w) =
       map (\<lambda>(x, rid). (active_group self v, Inr x)) its @
       pick_calls (ending_events (active_group self v) en)" and
    gen: "gen_calls (calls self w) =
       map (\<lambda>(x, rid). (x, Inr rid)) its @ gen_calls (ending_events (active_group self v) en)" and
    cnt: "case py_index (resolved_count ro) of
       None \<Rightarrow> its = [] \<and> en = Completed \<and> outcome self w = Inl TypeError
     | Some n \<Rightarrow> outcome self w = ending_outcome en
         \<and> (if en = Completed then length its = nat n else length its < nat n)"
    by (rule run_projections [of self w])
  from assms(1) opt have "ro = (c, True)" by simp
  then have ro: "resolved_count ro = c"
    by (simp add: resolved_count_def)
  have "its = [] \<and> en = Completed
      \<and> outcome self w = (if py_index c = None then Inl TypeError else Inr ())"
  proof (cases "py_index c")
    case None
    with cnt ro show ?thesis by simp
  next
    case (Some n)
    with assms(2) have "n \<le> 0" by auto
    with cnt ro Some show ?thesis by (simp split: if_splits)
  qed
  with pick gen st show ?thesis by simp
qed

theorem invalid_count_witness:
  "(''instruction_count'', (VStr ''abc'', True))
     \<in> set (option_calls (calls (test_env (basic\<lparr>count_option := (VStr ''abc'', True)\<rparr>)) start))
 \<and> \<not> (\<exists>n. py_index (VStr ''abc'') = Some n \<and> 0 < n)
 \<and> pick_calls (calls (test_env (basic\<lparr>count_option := (VStr ''abc'', True)\<rparr>)) start) = []
 \<and> gen_calls (calls (test_env (basic\<lparr>count_option := (VStr ''abc'', True)\<rparr>)) start) = []
 \<and> map fst (state_calls (calls (test_env (basic\<lparr>count_option := (VStr ''abc'', True)\<rparr>)) start))
     = [''AppRegisterWidth'']
 \<and> outcome (test_env (basic\<lparr>count_option := (VStr ''abc'', True)\<rparr>)) start = Inl TypeError"
proof -
  let ?sc = "basic\<lparr>count_option := (VStr ''abc'', True)\<rparr>"
  have h1: "(''instruction_count'', (VStr ''abc'', True))
     \<in> set (option_calls (calls (test_env ?sc) start))"
    by code_simp
  have h2: "\<not> (\<exists>n. py_index (VStr ''abc'') = Some n \<and> 0 < n)"
    by simp
  from invalid_count [OF h1 h2] h1 h2 show ?thesis by simp
qed

text \<open>
  C4 as it is stated asks for a configuration error, before any submission, when the
  register width is neither 32 nor 64. With the width 16 and the count 3 the run completes
  and has called \<open>genInstruction\<close> three times.
\<close>

theorem other_width_counterexample:
  "(''AppRegisterWidth'', VInt 16)
     \<in> set (state_calls (calls (test_env (basic\<lparr>register_width := VInt 16\<rparr>)) start))
 \<and> outcome (test_env (basic\<lparr>register_width := VInt 16\<rparr>)) start = Inr ()
 \<and> length (gen_calls (calls (test_env (basic\<lparr>register_width := VInt 16\<rparr>)) start)) = 3"
  by code_simp

text \<open>
  C4, amended. Line 64 is a test for 32 with an \<open>else\<close>: a register width other than 32,
  so also one that is neither 32 nor 64, selects \<open>RV64F_instructions\<close>, and nothing is
  raised for it. With an integer count \<open>n\<close>, every call of \<open>pickWeighted\<close> is on
  \<open>RV64F_instructions\<close>; the loop is entered when \<open>n\<close> is positive; a run that completes
  has called \<open>genInstruction\<close> \<open>n\<close> times (no time when \<open>n\<close> is negative); and an
  exception of the run is one that its last call of \<open>pickWeighted\<close> or of
  \<open>genInstruction\<close> raised.
\<close>

theorem other_width:
  assumes "(''AppRegisterWidth'', v) \<in> set (state_calls (calls self w))"
      and "\<not> py_eq v (VInt 32)"
      and "(''instruction_count'', ro) \<in> set (option_calls (calls self w))"
      and "py_index (resolved_count ro) = Some n"
  shows "map fst (pick_calls (calls self w)) =
           replicate (length (pick_calls (calls self w))) (RV64F_instructions self)
       \<and> (0 < n \<longrightarrow> pick_calls (calls self w) \<noteq> [])
       \<and> (outcome self w = Inr () \<longrightarrow> length (gen_calls (calls self w)) = nat n)
       \<and> (\<forall>e. outcome self w = Inl e \<longrightarrow>
             pick_calls (calls self w) \<noteq> []
           \<and> (snd (last (pick_calls (calls self w))) = Inl e
              \<or> gen_calls (calls self w) \<noteq> []
                \<and> snd (last (gen_calls (calls self w))) = Inl e))"
proof -
  obtain ro' v' its en where
    opt: "option_calls (calls self w) = [(''instruction_count'', ro')]" and
    st: "state_calls (calls self w) = [(''AppRegisterWidth'', v')]" and
    pick: "pick_calls (calls self w) =
       map (\<lambda>(x, rid). (active_group self v', Inr x)) its @
       pick_calls (ending_events (active_group self v') en)" and
    gen: "gen_calls (calls self w) =
       map (\<lambda>(x, rid). (x, Inr rid)) its @ gen_calls (ending_events (active_group self v') en)" and
    cnt: "case py_index (resolved_count ro') of
       None \<Rightarrow> its = [] \<and> en = Completed \<and> outcome self w = Inl TypeError
     | Some n \<Rightarrow> outcome self w = ending_outcome en
         \<and> (if en = Completed then length its = nat n else length its < nat n)"
    by (rule run_projections [of self w])
  from assms(1) st have v: "v' = v" by simp
  from assms(3) opt have ro: "ro' = ro" by simp
  let ?g = "RV64F_instructions self"
  from assms(2) v have g: "active_group self v' = ?g"
    by (simp add: active_group_def del: py_eq.simps)
  from cnt ro assms(4) have out: "outcome self w = ending_outcome en"
    and len: "if en = Completed then length its = nat n else length its < nat n"
    by simp_all
  have groups: "map fst (pick_calls (calls self w)) =
      replicate (length (pick_calls (calls self w))) ?g"
    unfolding pick g
    by (cases en) (simp_all add: groups_iterations replicate_append_same del: map_map)
  have first: "pick_calls (calls self w) \<noteq> []" if "0 < n"
    using that len unfolding pick by (cases en) auto
  have finished: "length (gen_calls (calls self w)) = nat n" if "outcome self w = Inr ()"
    using that out len unfolding gen by (cases en) simp_all
  have raised: "pick_calls (calls self w) \<noteq> []
           \<and> (snd (last (pick_calls (calls self w))) = Inl e
              \<or> gen_calls (calls self w) \<noteq> []
                \<and> snd (last (gen_calls (calls self w))) = Inl e)"
    if "outcome self w = Inl e" for e
    using that out unfolding pick gen by (cases en) simp_all
  from groups first finished raised show ?thesis by blast
qed

theorem other_width_witness:
  "(''AppRegisterWidth'', VInt 16)
     \<in> set (state_calls (calls (test_env (basic\<lparr>register_width := VInt 16\<rparr>)) start))
 \<and> \<not> py_eq (VInt 16) (VInt 32)
 \<and> (''instruction_count'', (VInt 3, True))
     \<in> set (option_calls (calls (test_env (basic\<lparr>register_width := VInt 16\<rparr>)) start))
 \<and> py_index (resolved_count (VInt 3, True)) = Some 3
 \<and> outcome (test_env (basic\<lparr>register_width := VInt 16\<rparr>)) start = Inr ()
 \<and> map fst (pick_calls (calls (test_env (basic\<lparr>register_width := VInt 16\<rparr>)) start)) =
     replicate (length (pick_calls (calls (test_env (basic\<lparr>register_width := VInt 16\<rparr>)) start)))
       (RV64F_instructions (test_env (basic\<lparr>register_width := VInt 16\<rparr>)))
 \<and> pick_calls (calls (test_env (basic\<lparr>register_width := VInt 16\<rparr>)) start) \<noteq> []
 \<and> length (gen_calls (calls (test_env (basic\<lparr>register_width := VInt 16\<rparr>)) start)) = nat 3"
proof -
  let ?sc = "basic\<lparr>register_width := VInt 16\<rparr>"
  have h1: "(''AppRegisterWidth'', VInt 16) \<in> set (state_calls (calls (test_env ?sc) start))"
    by code_simp
  have h2: "\<not> py_eq (VInt 16) (VInt 32)" by simp
  have h3: "(''instruction_count'', (VInt 3, True))
     \<in> set (option_calls (calls (test_env ?sc) start))"
    by code_simp
  have h4: "py_index (resolved_count (VInt 3, True)) = Some 3"
    by (simp add: resolved_count_def)
  have h5: "outcome (test_env ?sc) start = Inr ()"
    by code_simp
  from other_width [OF h1 h2 h3 h4] h1 h2 h3 h4 h5 show ?thesis by simp
qed

subsection \<open>Record ids\<close>

text \<open>
  C7. Take two runs, with generators whose states are related by \<open>R\<close> at the start,
  where \<open>R\<close> is kept by every call, related states give the same answers to \<open>getOption\<close>,
  \<open>getGlobalState\<close> and \<open>pickWeighted\<close>, and \<open>genInstruction\<close> answers alike but for
  the record id that it returns. Then both runs submit the same names to
  \<open>genInstruction\<close>, in the same order, make the same calls of \<open>pickWeighted\<close> (so as
  many iterations) and end alike: the record ids have no influence.
\<close>

theorem record_ids_ignored:
  assumes "R w1 w2"
    and "RV32F_instructions e1 = RV32F_instructions e2"
    and "RV64F_instructions e1 = RV64F_instructions e2"
    and opt: "\<forall>n a b. R a b \<longrightarrow>
        fst (getOption e1 n a) = fst (getOption e2 n b)
      \<and> R (snd (getOption e1 n a)) (snd (getOption e2 n b))"
    and state: "\<forall>n a b. R a b \<longrightarrow>
        fst (getGlobalState e1 n a) = fst (getGlobalState e2 n b)
      \<and> R (snd (getGlobalState e1 n a)) (snd (getGlobalState e2 n b))"
    and pick: "\<forall>g a b. R a b \<longrightarrow>
        fst (pickWeighted e1 g a) = fst (pickWeighted e2 g b)
      \<and> R (snd (pickWeighted e1 g a)) (snd (pickWeighted e2 g b))"
    and gen: "\<forall>x a b. R a b \<longrightarrow>
        without_record_id (fst (genInstruction e1 x a)) =
        without_record_id (fst (genInstruction e2 x b))
      \<and> R (snd (genInstruction e1 x a)) (snd (genInstruction e2 x b))"
  shows "map fst (gen_calls (calls e1 w1)) = map fst (gen_calls (calls e2 w2))
       \<and> length (pick_calls (calls e1 w1)) = length (pick_calls (calls e2 w2))
       \<and> pick_calls (calls e1 w1) = pick_calls (calls e2 w2)
       \<and> option_calls (calls e1 w1) = option_calls (calls e2 w2)
       \<and> state_calls (calls e1 w1) = state_calls (calls e2 w2)
       \<and> outcome e1 w1 = outcome e2 w2"
proof -
  obtain ro1 a1 where o1: "getOption e1 ''instruction_count'' w1 = (ro1, a1)"
    by (cases "getOption e1 ''instruction_count'' w1")
  obtain ro2 a2 where o2: "getOption e2 ''instruction_count'' w2 = (ro2, a2)"
    by (cases "getOption e2 ''instruction_count'' w2")
  from opt [rule_format, OF assms(1), of "''instruction_count''"] o1 o2
  have ro: "ro2 = ro1" and a: "R a1 a2"
    by simp_all
  obtain v1 b1 where g1: "getGlobalState e1 ''AppRegisterWidth'' a1 = (v1, b1)"
    by (cases "getGlobalState e1 ''AppRegisterWidth'' a1")
  obtain v2 b2 where g2: "getGlobalState e2 ''AppRegisterWidth'' a2 = (v2, b2)"
    by (cases "getGlobalState e2 ''AppRegisterWidth'' a2")
  from state [rule_format, OF a, of "''AppRegisterWidth''"] g1 g2
  have v: "v2 = v1" and b: "R b1 b2"
    by simp_all
  have grp: "active_group e2 v1 = active_group e1 v1"
    using assms(2,3) by (simp add: active_group_def del: py_eq.simps)
  let ?hdr = "[GetOption ''instruction_count'' ro1, GetGlobalState ''AppRegisterWidth'' v1]"
  let ?s1 = "\<lparr>world = b1, trace = ?hdr\<rparr>"
  let ?s2 = "\<lparr>world = b2, trace = ?hdr\<rparr>"
  note u1 = run_unfold [OF o1 g1]
  note u2 = run_unfold [OF o2 g2, unfolded ro v grp]
  have main: "fst (run e1 w1) = fst (run e2 w2)
       \<and> option_calls (trace (snd (run e1 w1))) = option_calls (trace (snd (run e2 w2)))
       \<and> state_calls (trace (snd (run e1 w1))) = state_calls (trace (snd (run e2 w2)))
       \<and> pick_calls (trace (snd (run e1 w1))) = pick_calls (trace (snd (run e2 w2)))
       \<and> map fst (gen_calls (trace (snd (run e1 w1)))) =
         map fst (gen_calls (trace (snd (run e2 w2))))"
  proof (cases "py_range (resolved_count ro1)")
    case (Inl e)
    then show ?thesis by (simp add: u1 u2)
  next
    case (Inr r)
    have "fst (generate_loop e1 (active_group e1 v1) r ?s1) =
          fst (generate_loop e2 (active_group e1 v1) r ?s2)
       \<and> option_calls (trace (snd (generate_loop e1 (active_group e1 v1) r ?s1))) =
         option_calls (trace (snd (generate_loop e2 (active_group e1 v1) r ?s2)))
       \<and> state_calls (trace (snd (generate_loop e1 (active_group e1 v1) r ?s1))) =
         state_calls (trace (snd (generate_loop e2 (active_group e1 v1) r ?s2)))
       \<and> pick_calls (trace (snd (generate_loop e1 (active_group e1 v1) r ?s1))) =
         pick_calls (trace (snd (generate_loop e2 (active_group e1 v1) r ?s2)))
       \<and> map fst (gen_calls (trace (snd (generate_loop e1 (active_group e1 v1) r ?s1)))) =
         map fst (gen_calls (trace (snd (generate_loop e2 (active_group e1 v1) r ?s2))))"
    proof (rule generate_loop_record_ids [where R = R])
      show "fst (pickWeighted e1 (active_group e1 v1) a) =
            fst (pickWeighted e2 (active_group e1 v1) b)
          \<and> R (snd (pickWeighted e1 (active_group e1 v1) a))
              (snd (pickWeighted e2 (active_group e1 v1) b))" if "R a b" for a b
        using pick that by blast
      show "without_record_id (fst (genInstruction e1 x a)) =
            without_record_id (fst (genInstruction e2 x b))
          \<and> R (snd (genInstruction e1 x a)) (snd (genInstruction e2 x b))"
        if "R a b" for x a b
        using gen that by blast
      show "R (world ?s1) (world ?s2)" using b by simp
    qed simp_all
    with Inr show ?thesis by (simp add: u1 u2)
  qed
  then show ?thesis
    by (simp add: calls_def outcome_def)
qed

theorem record_ids_ignored_witness:
  "gen_calls (calls (test_env basic) start) \<noteq>
     gen_calls (calls (test_env (basic\<lparr>first_id := 1000\<rparr>)) start)
 \<and> map fst (gen_calls (calls (test_env basic) start)) =
     map fst (gen_calls (calls (test_env (basic\<lparr>first_id := 1000\<rparr>)) start))
 \<and> length (pick_calls (calls (test_env basic) start)) =
     length (pick_calls (calls (test_env (basic\<lparr>first_id := 1000\<rparr>)) start))
 \<and> pick_calls (calls (test_env basic) start) =
     pick_calls (calls (test_env (basic\<lparr>first_id := 1000\<rparr>)) start)
 \<and> option_calls (calls (test_env basic) start) =
     option_calls (calls (test_env (basic\<lparr>first_id := 1000\<rparr>)) start)
 \<and> state_calls (calls (test_env basic) start) =
     state_calls (calls (test_env (basic\<lparr>first_id := 1000\<rparr>)) start)
 \<and> outcome (test_env basic) start = outcome (test_env (basic\<lparr>first_id := 1000\<rparr>)) start"
proof -
  let ?e1 = "test_env basic" and ?e2 = "test_env (basic\<lparr>first_id := 1000\<rparr>)"
  have differ: "gen_calls (calls ?e1 start) \<noteq> gen_calls (calls ?e2 start)"
    by code_simp
  have "map fst (gen_calls (calls ?e1 start)) = map fst (gen_calls (calls ?e2 start))
       \<and> length (pick_calls (calls ?e1 start)) = length (pick_calls (calls ?e2 start))
       \<and> pick_calls (calls ?e1 start) = pick_calls (calls ?e2 start)
       \<and> option_calls (calls ?e1 start) = option_calls (calls ?e2 start)
       \<and> state_calls (calls ?e1 start) = state_calls (calls ?e2 start)
       \<and> outcome ?e1 start = outcome ?e2 start"
    by (rule record_ids_ignored [where R = "(=)"]) (simp_all add: test_env_def basic_def)
  with differ show ?thesis by simp
qed

end
